theory Spec2Isabelle
  imports Complex_Main "HOL-Library.List_Lexorder" "HOL-Library.Char_ord"
begin

section \<open>RDF terms and quads\<close>

text \<open>
  The terms of the N3 data model as the code uses them: a term has a \<open>termType\<close>
  (the constructor), a \<open>value\<close> and an \<open>id\<close>. A literal carries its lexical value,
  its language tag and its datatype IRI. The graph of a quad is kept as the id of the
  graph term (the empty string for the default graph).
\<close>

datatype rdf_term =
    NamedNode string
  | BlankNode string
  | Literal string string string
  | Variable string

record quad =
  subject :: rdf_term
  predicate :: rdf_term
  object :: rdf_term
  graph :: string

type_synonym Resource = "quad list"

definition xsd_string :: string where
  "xsd_string = ''http://www.w3.org/2001/XMLSchema#string''"


fun term_id :: "rdf_term \<Rightarrow> string" where
  "term_id (NamedNode v) = v"
| "term_id (BlankNode v) = ''_:'' @ v"
| "term_id (Variable v) = ''?'' @ v"
| "term_id (Literal v lang dt) =
     ''\"'' @ v @ ''\"'' @
       (if lang \<noteq> [] then ''@'' @ lang
        else if dt = [] \<or> dt = xsd_string then [] else ''^^'' @ dt)"


fun is_BlankNode :: "rdf_term \<Rightarrow> bool" where
  "is_BlankNode (BlankNode v) = True"
| "is_BlankNode t = False"

text \<open>
  What the code throws: a \<open>TypeError\<close> of the runtime (a property read on
  \<open>undefined\<close> or \<open>null\<close>), the \<open>Error\<close> on an invalid sample of \<open>getBucket\<close>, and the
  \<open>Error\<close> of a publisher that was not initialised.
\<close>

datatype error = TypeError | InvalidSample | NotInitialised

text \<open>\<open>new Quad(s, p, o)\<close>: a quad in the default graph.\<close>

definition Quad :: "rdf_term \<Rightarrow> rdf_term \<Rightarrow> rdf_term \<Rightarrow> quad" where
  "Quad s p ob = \<lparr>subject = s, predicate = p, object = ob, graph = []\<rparr>"

section \<open>The N3 store\<close>

text \<open>
  An N3 \<open>Store\<close> is a set of quads, identified by the ids of their four components.
  It is modelled as the list of its quads without such duplicates. The order in which
  the store enumerates its indexes is not modelled: the list order stands for it, and
  no theorem below depends on it. A \<open>null\<close> argument of a query is \<open>None\<close>, a term or
  string argument is the id it is looked up by; the graph argument is \<open>null\<close> at every
  call of the code.
\<close>

type_synonym Store = "quad list"

definition same_quad :: "quad \<Rightarrow> quad \<Rightarrow> bool" where
  "same_quad a b \<longleftrightarrow>
     term_id (subject a) = term_id (subject b) \<and>
     term_id (predicate a) = term_id (predicate b) \<and>
     term_id (object a) = term_id (object b) \<and> graph a = graph b"

definition addQuad :: "Store \<Rightarrow> quad \<Rightarrow> Store" where
  "addQuad store q = (if list_ex (same_quad q) store then store else store @ [q])"

text \<open>\<open>new Store(quads)\<close>\<close>

definition newStore :: "quad list \<Rightarrow> Store" where
  "newStore quads = foldl addQuad [] quads"

fun matches :: "string option \<Rightarrow> string \<Rightarrow> bool" where
  "matches None i = True"
| "matches (Some j) i = (i = j)"

definition getQuads :: "Store \<Rightarrow> string option \<Rightarrow> string option \<Rightarrow> string option \<Rightarrow> quad list" where
  "getQuads store s p ob =
     filter (\<lambda>q. matches s (term_id (subject q)) \<and> matches p (term_id (predicate q)) \<and>
                 matches ob (term_id (object q))) store"

text \<open>The unique terms of a result (\<open>getSubjects\<close>, \<open>getObjects\<close>), first occurrences kept.\<close>

definition unique_terms :: "rdf_term list \<Rightarrow> rdf_term list" where
  "unique_terms ts =
     foldl (\<lambda>acc t. if term_id t \<in> set (map term_id acc) then acc else acc @ [t]) [] ts"

text \<open>\<open>store.getSubjects(predicate, object, graph)\<close>\<close>

definition getSubjects :: "Store \<Rightarrow> string option \<Rightarrow> string option \<Rightarrow> rdf_term list" where
  "getSubjects store p ob = unique_terms (map subject (getQuads store None p ob))"

text \<open>\<open>store.getObjects(subject, predicate, graph)\<close>\<close>

definition getObjects :: "Store \<Rightarrow> string option \<Rightarrow> string option \<Rightarrow> rdf_term list" where
  "getObjects store s p = unique_terms (map object (getQuads store s p None))"


section \<open>extractResources\<close>

definition TREE_member :: string where
  "TREE_member = ''https://w3id.org/tree#member''"


text \<open>
  The inner loop of \<open>extractResources\<close>: \<open>for (const quad of quads)\<close> over the array
  that the body pushes onto. The array iterator reads index \<open>i\<close> while \<open>i\<close> is below the
  current length, so the quads pushed are visited later on. \<open>existingObjects\<close> is the
  set of object ids seen. Nothing in the loop bounds its length beforehand, so it is a
  partial function: \<open>None\<close> is a walk that never ends.
\<close>

partial_function (option) walk ::
  "Store \<Rightarrow> string set \<Rightarrow> string set \<Rightarrow> quad list \<Rightarrow> nat \<Rightarrow> quad list option" where
  "walk store mainSubjects existingObjects quads i =
     (if i < length quads then
        (let quad = quads ! i in
         if term_id (object quad) \<in> existingObjects then
           walk store mainSubjects existingObjects quads (Suc i)
         else
           walk store mainSubjects (insert (term_id (object quad)) existingObjects)
             (quads @
                filter (\<lambda>obj. term_id (object obj) = term_id (subject (quads ! 0)) \<or>
                              term_id (object obj) \<notin> mainSubjects)
                  (getQuads store (Some (term_id (object quad))) None None))
             (Suc i))
      else Some quads)"

text \<open>
  The first \<open>map\<close>: the quads of a main subject, then the \<open>tree:member\<close> quad of the
  stream.
\<close>

definition initial_resource :: "Store \<Rightarrow> string \<Rightarrow> rdf_term \<Rightarrow> quad list" where
  "initial_resource store eventStreamURI subj =
     getQuads store (Some (term_id subj)) None None @
       [Quad (NamedNode eventStreamURI) (NamedNode TREE_member) subj]"

text \<open>The loop \<open>for (const quads of resources)\<close>; a walk that never ends ends nothing.\<close>

fun walk_all :: "Store \<Rightarrow> string set \<Rightarrow> quad list list \<Rightarrow> quad list list option" where
  "walk_all store mainSubjects [] = Some []"
| "walk_all store mainSubjects (quads # resources) =
     (case walk store mainSubjects {term_id (subject (quads ! 0))} quads 0 of
        None \<Rightarrow> None
      | Some r \<Rightarrow>
          (case walk_all store mainSubjects resources of
             None \<Rightarrow> None
           | Some rs \<Rightarrow> Some (r # rs)))"

definition extractResources :: "Store \<Rightarrow> string \<Rightarrow> string \<Rightarrow> Resource list option" where
  "extractResources store treePath eventStreamURI =
     (let mainSubjects = getSubjects store (Some treePath) None;
          resources = map (initial_resource store eventStreamURI) mainSubjects
      in walk_all store (set (map term_id mainSubjects)) resources)"

text \<open>The object ids a walk can meet: those of the store and of the working list.\<close>

definition object_ids :: "Store \<Rightarrow> quad list \<Rightarrow> string set" where
  "object_ids store quads = (\<lambda>q. term_id (object q)) ` (set store \<union> set quads)"

text \<open>
  A store with a cycle of length two (\<open>a knows b\<close>, \<open>b knows a\<close>) and a self-loop
  (\<open>b self b\<close>), and the resource of \<open>a\<close> in it.
\<close>

definition cyclic_store :: Store where
  "cyclic_store =
    [Quad (NamedNode ''a'') (NamedNode ''created'') (Literal ''t'' [] []),
     Quad (NamedNode ''a'') (NamedNode ''knows'') (NamedNode ''b''),
     Quad (NamedNode ''b'') (NamedNode ''knows'') (NamedNode ''a''),
     Quad (NamedNode ''b'') (NamedNode ''self'') (NamedNode ''b'')]"

definition cyclic_resource :: Resource where
  "cyclic_resource =
    [Quad (NamedNode ''a'') (NamedNode ''created'') (Literal ''t'' [] []),
     Quad (NamedNode ''a'') (NamedNode ''knows'') (NamedNode ''b''),
     Quad (NamedNode ''s'') (NamedNode TREE_member) (NamedNode ''a''),
     Quad (NamedNode ''b'') (NamedNode ''knows'') (NamedNode ''a''),
     Quad (NamedNode ''b'') (NamedNode ''self'') (NamedNode ''b'')]"

section \<open>generateShape\<close>









text \<open>A loop whose body may throw: the first error ends it, else the pushes add up.\<close>

fun collect :: "(error + 'a list) list \<Rightarrow> error + 'a list" where
  "collect [] = Inr []"
| "collect (Inl e # rs) = Inl e"
| "collect (Inr xs # rs) = (case collect rs of Inl e \<Rightarrow> Inl e | Inr ys \<Rightarrow> Inr (xs @ ys))"











section \<open>resourceToOptimisedTurtle\<close>

text \<open>
  The two \<open>Map\<close>s of the serializer, keyed by subject id and then by predicate id. A
  JavaScript \<open>Map\<close> enumerates its keys in insertion order, and the output follows that
  order, so they are association lists: a new key goes to the end, a known key keeps
  its place.
\<close>

type_synonym properties = "(string \<times> rdf_term list) list"
type_synonym grouping = "(string \<times> properties) list"

text \<open>
  The scan of \<open>objs\<close> with \<open>obj.equals(quad.object)\<close>, then \<open>objs.push\<close>: equality of
  terms is the equality of their type and components.
\<close>

definition push_object :: "rdf_term \<Rightarrow> rdf_term list \<Rightarrow> rdf_term list" where
  "push_object ob objs = (if ob \<in> set objs then objs else objs @ [ob])"

fun set_predicate :: "string \<Rightarrow> rdf_term \<Rightarrow> properties \<Rightarrow> properties" where
  "set_predicate p ob [] = [(p, [ob])]"
| "set_predicate p ob ((p', objs) # props) =
     (if p' = p then (p', push_object ob objs) # props
      else (p', objs) # set_predicate p ob props)"

fun set_subject :: "string \<Rightarrow> string \<Rightarrow> rdf_term \<Rightarrow> grouping \<Rightarrow> grouping" where
  "set_subject s p ob [] = [(s, [(p, [ob])])]"
| "set_subject s p ob ((s', props) # data) =
     (if s' = s then (s', set_predicate p ob props) # data
      else (s', props) # set_subject s p ob data)"

text \<open>The body of the loop \<open>addElements\<close>; the state is the pair (\<open>named\<close>, \<open>blank\<close>).\<close>

definition addElement :: "grouping \<times> grouping \<Rightarrow> quad \<Rightarrow> grouping \<times> grouping" where
  "addElement maps quad =
     (if is_BlankNode (subject quad)
      then (fst maps,
            set_subject (term_id (subject quad)) (term_id (predicate quad)) (object quad) (snd maps))
      else (set_subject (term_id (subject quad)) (term_id (predicate quad)) (object quad) (fst maps),
            snd maps))"

definition addElements :: "Resource \<Rightarrow> grouping \<times> grouping" where
  "addElements resource = foldl addElement ([], []) resource"

text \<open>
  What the writer is given, in order: \<open>Plain s p o\<close> is
  \<open>writer.addQuad(namedNode(s), namedNode(p), o)\<close> and \<open>Nested s p bp bo\<close> is
  \<open>writer.addQuad(namedNode(s), namedNode(p), writer.blank(namedNode(bp), bo))\<close>. The text
  the N3 writer makes of it, with the prefixes, is not modelled.
\<close>

datatype written = Plain string string rdf_term | Nested string string string rdf_term

text \<open>
  The body of the innermost loop. \<open>blank.get(object.id)!\<close> is \<open>undefined\<close> for a blank
  node that is the subject of no quad, and the loop over it throws.
\<close>

definition write_object :: "grouping \<Rightarrow> string \<Rightarrow> string \<Rightarrow> rdf_term \<Rightarrow> error + written list" where
  "write_object blank s p ob =
     (if \<not> is_BlankNode ob then Inr [Plain s p ob]
      else
        case map_of blank (term_id ob) of
          None \<Rightarrow> Inl TypeError
        | Some blankProperties \<Rightarrow>
            Inr (concat (map (\<lambda>(blankPredicate, blankObjects).
                   map (Nested s p blankPredicate) blankObjects) blankProperties)))"

definition write_all :: "grouping \<Rightarrow> grouping \<Rightarrow> (error + written list) list" where
  "write_all blank named =
     concat (map (\<lambda>(s, props).
       concat (map (\<lambda>(p, objs). map (write_object blank s p) objs) props)) named)"

definition resourceToOptimisedTurtle :: "Resource \<Rightarrow> error + written list" where
  "resourceToOptimisedTurtle resource =
     (let maps = addElements resource in collect (write_all (snd maps) (fst maps)))"








section \<open>Timestamps and the choice of a bucket\<close>

text \<open>
  \<open>getTimeStamp(resource, timestampPath)\<close>: the first object of the path in a store of the
  resource, given to \<open>extractTimestampFromLiteral\<close>. That function is library code and
  a parameter here; its argument is \<open>None\<close> for \<open>undefined\<close> (no such object), and its
  result is an error when it throws, \<open>Inr None\<close> for \<open>NaN\<close>, and else the time in
  milliseconds.
\<close>

definition getTimeStamp ::
  "(rdf_term option \<Rightarrow> error + int option) \<Rightarrow> Resource \<Rightarrow> string \<Rightarrow> error + int option" where
  "getTimeStamp extractTimestampFromLiteral resource timestampPath =
     extractTimestampFromLiteral
       (case getObjects (newStore resource) None (Some timestampPath) of
          [] \<Rightarrow> None
        | l # ls \<Rightarrow> Some l)"

text \<open>
  A relation of the metadata's first view: \<open>relation_value\<close> is
  \<open>new Date(relation.value).getTime()\<close> (\<open>None\<close> for \<open>NaN\<close>), \<open>node\<close> the URL of its bucket.
\<close>

record relation =
  relation_value :: "int option"
  node :: string

record LDESMetadata =
  views :: "relation list list"
  timestampPath :: string

text \<open>The body of the loop of \<open>calculateBucket\<close>; a comparison with \<open>NaN\<close> is false.\<close>

fun closer :: "int option \<Rightarrow> int \<times> string \<Rightarrow> relation \<Rightarrow> int \<times> string" where
  "closer resourceTs (timestampJustSmaller, correspondingUrl) relation =
     (case (relation_value relation, resourceTs) of
        (Some relationTs, Some ts) \<Rightarrow>
          if relationTs \<le> ts \<and> timestampJustSmaller < relationTs
          then (relationTs, node relation)
          else (timestampJustSmaller, correspondingUrl)
      | _ \<Rightarrow> (timestampJustSmaller, correspondingUrl))"

definition calculateBucket ::
  "(rdf_term option \<Rightarrow> error + int option) \<Rightarrow> Resource \<Rightarrow> LDESMetadata \<Rightarrow> error + string" where
  "calculateBucket extractTimestampFromLiteral resource metadata =
     (case views metadata of
        [] \<Rightarrow> Inl TypeError
      | relations # vs \<Rightarrow>
          (case getTimeStamp extractTimestampFromLiteral resource (timestampPath metadata) of
             Inl e \<Rightarrow> Inl e
           | Inr resourceTs \<Rightarrow> Inr (snd (foldl (closer resourceTs) (0, ''none'') relations))))"

text \<open>
  The relations that a resource of time \<open>t\<close> may go to (those whose boundary does not
  exceed \<open>t\<close>), and what the loop of \<open>calculateBucket\<close> has chosen after a prefix of the
  relations when every boundary is after the epoch: nothing yet, or a candidate of the
  greatest boundary.
\<close>

definition candidates :: "int \<Rightarrow> relation list \<Rightarrow> relation list" where
  "candidates t relations =
     filter (\<lambda>r. case relation_value r of None \<Rightarrow> False | Some x \<Rightarrow> x \<le> t) relations"

definition chosen :: "int \<Rightarrow> relation list \<Rightarrow> int \<times> string \<Rightarrow> bool" where
  "chosen t relations acc \<longleftrightarrow>
     (candidates t relations = [] \<and> acc = (0, ''none'')) \<or>
     (\<exists>r \<in> set (candidates t relations).
        relation_value r = Some (fst acc) \<and> snd acc = node r \<and>
        (\<forall>r' \<in> set (candidates t relations). \<forall>x. relation_value r' = Some x \<longrightarrow> x \<le> fst acc))"

section \<open>The publisher\<close>

text \<open>
  A \<open>Date\<close> object: \<open>ref\<close> is its identity (\<open>Array.includes\<close> compares objects by
  identity), \<open>time\<close> its \<open>getTime()\<close>. A member of a bucket is a string, or \<open>undefined\<close>
  (\<open>None\<close>) when it was popped off an empty array.
\<close>

record date =
  ref :: nat
  time :: int

text \<open>
  The state of a \<open>SimplePublisher\<close>: \<open>initialised\<close> says that \<open>init\<close> has replaced the
  throwing closures; \<open>bucketSize\<close> is \<open>None\<close> for \<open>Infinity\<close>; \<open>allocated\<close> counts the
  \<open>Date\<close> objects that \<open>rebalance\<close> has made. What is sent to the collaborators is
  logged: \<open>fragments\<close> are the calls of \<open>lil.newFragment\<close>, \<open>patches\<close> the calls of
  \<open>comm.patch\<close> (the URL of a bucket is the URL of the stream followed by the time of
  the bucket, so the time stands for it).
\<close>

record publisher =
  initialised :: bool
  treePath :: string
  bucketSize :: "int option"
  buckets :: "date list"
  bucketData :: "(date \<times> string option list) list"
  allocated :: nat
  fragments :: "date list"
  patches :: "(int \<times> written list) list"

text \<open>\<open>Array.findIndex\<close>: the index of the first element that satisfies, or -1.\<close>

fun findIndex :: "('a \<Rightarrow> bool) \<Rightarrow> 'a list \<Rightarrow> int" where
  "findIndex P [] = - 1"
| "findIndex P (x # xs) =
     (if P x then 0 else (let k = findIndex P xs in if k = - 1 then - 1 else k + 1))"

text \<open>
  \<open>SimplePublisher.getBucket\<close>. Whatever is thrown inside the \<open>try\<close> is caught and
  thrown again as the one \<open>Error\<close> on an invalid sample. \<open>bucketDate > resourceDate\<close> is
  false for an invalid date. The result is \<open>None\<close> for \<open>undefined\<close>: the last element of
  an empty array.
\<close>

definition getBucket ::
  "(rdf_term option \<Rightarrow> error + int option) \<Rightarrow> publisher \<Rightarrow> Resource \<Rightarrow> error + date option" where
  "getBucket extractTimestampFromLiteral s resource =
     (case getTimeStamp extractTimestampFromLiteral resource (treePath s) of
        Inl e \<Rightarrow> Inl InvalidSample
      | Inr resourceDate \<Rightarrow>
          (let bucketIndex =
                 findIndex (\<lambda>bucketDate.
                   case resourceDate of None \<Rightarrow> False | Some t \<Rightarrow> time bucketDate > t) (buckets s)
           in if bucketIndex = 0 then Inl InvalidSample
              else if bucketIndex = - 1
              then Inr (if buckets s = [] then None else Some (last (buckets s)))
              else Inr (Some (buckets s ! nat (bucketIndex - 1)))))"

text \<open>The three closures that \<open>init\<close> enables; \<open>_removeFromBucket\<close> has an empty body.\<close>

definition createBucket :: "date \<Rightarrow> publisher \<Rightarrow> error + publisher" where
  "createBucket d s =
     (if initialised s
      then Inr (s\<lparr>fragments := fragments s @ [d], buckets := buckets s @ [d]\<rparr>)
      else Inl NotInitialised)"

definition addToBucket :: "written list \<Rightarrow> int \<Rightarrow> publisher \<Rightarrow> error + publisher" where
  "addToBucket content bucketUrl s =
     (if initialised s then Inr (s\<lparr>patches := patches s @ [(bucketUrl, content)]\<rparr>)
      else Inl NotInitialised)"

definition removeFromBucket :: "string option \<Rightarrow> int \<Rightarrow> publisher \<Rightarrow> error + publisher" where
  "removeFromBucket subj bucketUrl s = (if initialised s then Inr s else Inl NotInitialised)"

text \<open>
  \<open>Publisher.append\<close>. \<open>this._buckets.sort()\<close> has no comparator, so it orders the dates
  by their strings; \<open>dateToString\<close> is \<open>Date.prototype.toString\<close>, which depends on the
  time zone of the host and is a parameter. An error comes with the state it leaves.
\<close>

definition append ::
  "(date \<Rightarrow> string) \<Rightarrow> Resource \<Rightarrow> date \<Rightarrow> publisher \<Rightarrow> error option \<times> publisher" where
  "append dateToString resource bucket s =
     (case (if ref bucket \<in> set (map ref (buckets s)) then Inr s
            else case createBucket bucket s of
                   Inl e \<Rightarrow> Inl e
                 | Inr s1 \<Rightarrow> Inr (s1\<lparr>buckets := sort_key dateToString (buckets s1 @ [bucket])\<rparr>)) of
        Inl e \<Rightarrow> (Some e, s)
      | Inr s2 \<Rightarrow>
          (case resourceToOptimisedTurtle resource of
             Inl e \<Rightarrow> (Some e, s2)
           | Inr additionalBucketContent \<Rightarrow>
               (case addToBucket additionalBucketContent (time bucket) s2 of
                  Inl e \<Rightarrow> (Some e, s2)
                | Inr s3 \<Rightarrow> (None, s3))))"

text \<open>
  \<open>SimplePublisher.publish\<close>; the argument is the array of resources (a single
  resource is an array of one). \<open>append\<close> reads \<open>bucket.getTime()\<close> first, which throws
  on \<open>undefined\<close>.
\<close>

definition publish ::
  "(rdf_term option \<Rightarrow> error + int option) \<Rightarrow> (date \<Rightarrow> string) \<Rightarrow> Resource list \<Rightarrow> publisher \<Rightarrow>
     error option \<times> publisher" where
  "publish extractTimestampFromLiteral dateToString resource s =
     (let flattened = concat resource
      in case getBucket extractTimestampFromLiteral s flattened of
           Inl e \<Rightarrow> (Some e, s)
         | Inr None \<Rightarrow> (Some TypeError, s)
         | Inr (Some bucket) \<Rightarrow> append dateToString flattened bucket s)"

text \<open>
  \<open>Publisher.move\<close>. \<open>getMembers\<close> is the answer of the storage for a bucket, a parameter;
  nothing the publisher sends changes the members of a bucket (the removal has an empty
  body and the data appended is the empty resource). The call of \<open>append\<close> is not
  awaited: the state it leaves is kept, an error of it is not seen.
\<close>

definition move ::
  "(date \<Rightarrow> string list) \<Rightarrow> (date \<Rightarrow> string) \<Rightarrow> string option \<Rightarrow> date \<Rightarrow> date \<Rightarrow> publisher \<Rightarrow>
     error option \<times> publisher" where
  "move getMembers dateToString resource from_bucket to_bucket s =
     (if resource \<notin> set (map Some (getMembers from_bucket)) then (None, s)
      else
        case removeFromBucket resource (time from_bucket) s of
          Inl e \<Rightarrow> (Some e, s)
        | Inr s1 \<Rightarrow> (None, snd (append dateToString [] to_bucket s1)))"

text \<open>
  The loop of \<open>_rebalance\<close>, \<open>n\<close> rounds of it: \<open>from\<close> and \<open>to\<close> are the entries \<open>i\<close> and \<open>j\<close>
  of \<open>bucketData\<close>. \<open>pop\<close> on an empty array gives \<open>undefined\<close> and leaves the array empty.
\<close>

fun transfer ::
  "(date \<Rightarrow> string list) \<Rightarrow> (date \<Rightarrow> string) \<Rightarrow> nat \<Rightarrow> nat \<Rightarrow> nat \<Rightarrow> publisher \<Rightarrow>
     error option \<times> publisher" where
  "transfer getMembers dateToString 0 i j s = (None, s)"
| "transfer getMembers dateToString (Suc n) i j s =
     (let from_bucket = bucketData s ! i;
          resource = (if snd from_bucket = [] then None else last (snd from_bucket));
          s1 = s\<lparr>bucketData := (bucketData s)[i := (fst from_bucket, butlast (snd from_bucket))]\<rparr>
      in case move getMembers dateToString resource (fst from_bucket) (fst (bucketData s1 ! j)) s1 of
           (Some e, s2) \<Rightarrow> (Some e, s2)
         | (None, s2) \<Rightarrow>
             transfer getMembers dateToString n i j
               (s2\<lparr>bucketData := (bucketData s2)
                  [j := (fst (bucketData s2 ! j), snd (bucketData s2 ! j) @ [resource])]\<rparr>))"

text \<open>
  \<open>SimplePublisher._rebalance(from, to)\<close> for a finite bucket size: the amount is
  computed once, the loop runs while its counter is below it, and the amount is
  returned. Reading \<open>to[1]\<close> throws when \<open>to\<close> is \<open>undefined\<close> (an index past the end of
  \<open>bucketData\<close>).
\<close>

definition rebalance_pair ::
  "(date \<Rightarrow> string list) \<Rightarrow> (date \<Rightarrow> string) \<Rightarrow> int \<Rightarrow> nat \<Rightarrow> nat \<Rightarrow> publisher \<Rightarrow>
     (error + int) \<times> publisher" where
  "rebalance_pair getMembers dateToString bucket_size i j s =
     (if i < length (bucketData s) \<and> j < length (bucketData s) then
        (let amount = min (int (length (snd (bucketData s ! i))) - bucket_size)
                          (int (length (snd (bucketData s ! j))) - bucket_size)
         in case transfer getMembers dateToString (nat amount) i j s of
              (Some e, s') \<Rightarrow> (Inl e, s')
            | (None, s') \<Rightarrow> (Inr amount, s'))
      else (Inl TypeError, s))"

text \<open>
  The loop \<open>while (remaining > 0)\<close> of \<open>rebalance\<close>: a new \<open>Date\<close> (its time read off the
  clock, a parameter), a new entry of \<open>bucketData\<close>, and a \<open>_rebalance\<close> into it. Nothing
  bounds the loop, so it is a partial function: \<open>None\<close> is a loop that never ends.
\<close>

partial_function (option) new_buckets ::
  "(date \<Rightarrow> string list) \<Rightarrow> (date \<Rightarrow> string) \<Rightarrow> (nat \<Rightarrow> int) \<Rightarrow> int \<Rightarrow> nat \<Rightarrow> int \<Rightarrow> publisher \<Rightarrow>
     (error option \<times> publisher) option" where
  "new_buckets getMembers dateToString clock bucket_size i remaining s =
     (if remaining > 0 then
        (let newBucket = \<lparr>ref = allocated s, time = clock (allocated s)\<rparr>;
             s1 = s\<lparr>allocated := Suc (allocated s),
                    bucketData := bucketData s @ [(newBucket, [])]\<rparr>
         in case rebalance_pair getMembers dateToString bucket_size i (length (bucketData s1) - 1) s1 of
              (Inl e, s2) \<Rightarrow> Some (Some e, s2)
            | (Inr amount, s2) \<Rightarrow>
                new_buckets getMembers dateToString clock bucket_size i (remaining - amount) s2)
      else Some (None, s))"

text \<open>
  The body of the loop over \<open>bucketData\<close>, for entry \<open>i\<close>. With the bucket size
  \<open>Infinity\<close>, \<open>remaining\<close> is \<open>-Infinity\<close> and nothing is done.
\<close>

definition rebalance_entry ::
  "(date \<Rightarrow> string list) \<Rightarrow> (date \<Rightarrow> string) \<Rightarrow> (nat \<Rightarrow> int) \<Rightarrow> nat \<Rightarrow> publisher \<Rightarrow>
     (error option \<times> publisher) option" where
  "rebalance_entry getMembers dateToString clock i s =
     (case bucketSize s of
        None \<Rightarrow> Some (None, s)
      | Some bucket_size \<Rightarrow>
          (let remaining = int (length (snd (bucketData s ! i))) - bucket_size
           in if remaining > 0 then
                (case (if i > 0 then rebalance_pair getMembers dateToString bucket_size i (i - 1) s
                       else (Inr 0, s)) of
                   (Inl e, s1) \<Rightarrow> Some (Some e, s1)
                 | (Inr moved_back, s1) \<Rightarrow>
                     (case (if int i < int (length (buckets s1)) - 1
                            then rebalance_pair getMembers dateToString bucket_size i (i + 1) s1
                            else (Inr 0, s1)) of
                        (Inl e, s2) \<Rightarrow> Some (Some e, s2)
                      | (Inr moved_on, s2) \<Rightarrow>
                          new_buckets getMembers dateToString clock bucket_size i
                            (remaining - moved_back - moved_on) s2))
              else Some (None, s)))"

text \<open>
  The loop \<open>for (const [i, [bucket, members]] of this.bucketData.entries())\<close>: the array
  iterator goes on while its index is below the current length, so it visits the
  entries that the body pushes.
\<close>

partial_function (option) rebalance_loop ::
  "(date \<Rightarrow> string list) \<Rightarrow> (date \<Rightarrow> string) \<Rightarrow> (nat \<Rightarrow> int) \<Rightarrow> nat \<Rightarrow> publisher \<Rightarrow>
     (error option \<times> publisher) option" where
  "rebalance_loop getMembers dateToString clock i s =
     (if i < length (bucketData s) then
        Option.bind (rebalance_entry getMembers dateToString clock i s)
          (\<lambda>r. case r of
                  (Some e, s1) \<Rightarrow> Some (Some e, s1)
                | (None, s1) \<Rightarrow> rebalance_loop getMembers dateToString clock (Suc i) s1)
      else Some (None, s))"

text \<open>\<open>SimplePublisher.rebalance\<close>: the members of every bucket are fetched first.\<close>

definition rebalance ::
  "(date \<Rightarrow> string list) \<Rightarrow> (date \<Rightarrow> string) \<Rightarrow> (nat \<Rightarrow> int) \<Rightarrow> publisher \<Rightarrow>
     (error option \<times> publisher) option" where
  "rebalance getMembers dateToString clock s =
     rebalance_loop getMembers dateToString clock 0
       (s\<lparr>bucketData := map (\<lambda>bucket. (bucket, map Some (getMembers bucket))) (buckets s)\<rparr>)"

text \<open>The boundaries of a publisher are in order when their times strictly increase.\<close>

definition strictly_increasing :: "int list \<Rightarrow> bool" where
  "strictly_increasing ts = sorted_wrt (<) ts"

text \<open>The number of members over all entries of \<open>bucketData\<close>.\<close>

definition total_members :: "(date \<times> string option list) list \<Rightarrow> nat" where
  "total_members bd = sum_list (map (\<lambda>entry. length (snd entry)) bd)"

text \<open>
  The scenario of the specification: three buckets with boundaries \<open>t0 < t1 < t2\<close> that
  hold 1, 3 and 1 resources, and a bucket size of 2. \<open>fetched\<close> is the state after the
  first loop of \<open>rebalance\<close>.
\<close>

definition scenario :: publisher where
  "scenario =
     \<lparr>initialised = True, treePath = ''http://purl.org/dc/terms/created'',
      bucketSize = Some 2,
      buckets = [\<lparr>ref = 0, time = 1000\<rparr>, \<lparr>ref = 1, time = 2000\<rparr>, \<lparr>ref = 2, time = 3000\<rparr>],
      bucketData = [], allocated = 3, fragments = [], patches = []\<rparr>"

definition scenario_members :: "date \<Rightarrow> string list" where
  "scenario_members d =
     (if time d = 1000 then [''r0'']
      else if time d = 2000 then [''r1'', ''r2'', ''r3'']
      else if time d = 3000 then [''r4'']
      else [])"

definition fetched :: publisher where
  "fetched =
     scenario\<lparr>bucketData :=
       [(\<lparr>ref = 0, time = 1000\<rparr>, [Some ''r0'']),
        (\<lparr>ref = 1, time = 2000\<rparr>, [Some ''r1'', Some ''r2'', Some ''r3'']),
        (\<lparr>ref = 2, time = 3000\<rparr>, [Some ''r4''])]\<rparr>"

text \<open>Two buckets that both hold more than the bucket size of 2: 3 and 4 members.\<close>

definition crowded :: publisher where
  "crowded =
     \<lparr>initialised = True, treePath = ''http://purl.org/dc/terms/created'',
      bucketSize = Some 2,
      buckets = [\<lparr>ref = 0, time = 1000\<rparr>, \<lparr>ref = 1, time = 2000\<rparr>],
      bucketData =
        [(\<lparr>ref = 0, time = 1000\<rparr>, [Some ''r0'', Some ''r1'', Some ''r2'']),
         (\<lparr>ref = 1, time = 2000\<rparr>, [Some ''r3'', Some ''r4'', Some ''r5'', Some ''r6''])],
      allocated = 2, fragments = [], patches = []\<rparr>"

definition crowded_members :: "date \<Rightarrow> string list" where
  "crowded_members d =
     (if time d = 1000 then [''r0'', ''r1'', ''r2'']
      else if time d = 2000 then [''r3'', ''r4'', ''r5'', ''r6'']
      else [])"

text \<open>A scenario in which no bucket is above the bucket size: the same buckets, size 3.\<close>

definition roomy :: publisher where
  "roomy = scenario\<lparr>bucketSize := Some 3\<rparr>"

definition roomy_fetched :: publisher where
  "roomy_fetched = fetched\<lparr>bucketSize := Some 3\<rparr>"

text \<open>
  A bucket size is \<open>Infinity\<close> or a number that is not negative. \<open>stored_members\<close> is
  the number of members that the storage holds over the buckets of a publisher.
\<close>

definition nonnegative_size :: "publisher \<Rightarrow> bool" where
  "nonnegative_size s = (case bucketSize s of None \<Rightarrow> True | Some k \<Rightarrow> 0 \<le> k)"

definition stored_members :: "(date \<Rightarrow> string list) \<Rightarrow> publisher \<Rightarrow> nat" where
  "stored_members getMembers s = sum_list (map (\<lambda>bucket. length (getMembers bucket)) (buckets s))"

text \<open>A sequence of \<open>n\<close> calls of \<open>rebalance\<close>, which stops at the first that throws.\<close>

fun rebalance_calls ::
  "(date \<Rightarrow> string list) \<Rightarrow> (date \<Rightarrow> string) \<Rightarrow> (nat \<Rightarrow> int) \<Rightarrow> nat \<Rightarrow> publisher \<Rightarrow>
     (error option \<times> publisher) option" where
  "rebalance_calls getMembers dateToString clock 0 s = Some (None, s)"
| "rebalance_calls getMembers dateToString clock (Suc n) s =
     (case rebalance getMembers dateToString clock s of
        None \<Rightarrow> None
      | Some (Some e, s1) \<Rightarrow> Some (Some e, s1)
      | Some (None, s1) \<Rightarrow> rebalance_calls getMembers dateToString clock n s1)"

text \<open>
  What \<open>rebalance\<close> keeps while the bucket size is not negative: the entries of
  \<open>bucketData\<close> begin with the known buckets, in order, and the entries after them (the
  new buckets) are empty; \<open>kept\<close> relates a state to a later one.
\<close>

definition aligned :: "publisher \<Rightarrow> bool" where
  "aligned s \<longleftrightarrow>
     length (buckets s) \<le> length (bucketData s) \<and>
     map ref (buckets s) = map (\<lambda>entry. ref (fst entry)) (take (length (buckets s)) (bucketData s)) \<and>
     list_all (\<lambda>entry. snd entry = []) (drop (length (buckets s)) (bucketData s))"

definition kept :: "publisher \<Rightarrow> publisher \<Rightarrow> bool" where
  "kept s s' \<longleftrightarrow>
     aligned s' \<and> buckets s' = buckets s \<and> bucketSize s' = bucketSize s \<and>
     length (bucketData s') = length (bucketData s) \<and>
     total_members (bucketData s') = total_members (bucketData s)"

section \<open>batchResources\<close>

text \<open>
  \<open>batchResources(source, count)\<close>. \<open>count\<close> is a number, here a real (not \<open>NaN\<close> and
  not infinite; the rounding of the floating-point division is not modelled). For
  \<open>count < 1\<close> the source is returned. Otherwise \<open>Math.floor(source.length / count) + 1\<close>
  empty arrays are made, resource \<open>i\<close> is pushed (spread) onto array
  \<open>Math.floor(i / count)\<close>, and the last array is dropped when it is empty.
\<close>

fun batch_push :: "real \<Rightarrow> Resource list \<Rightarrow> nat \<times> Resource \<Rightarrow> Resource list" where
  "batch_push count resources (i, resource) =
     resources[nat \<lfloor>real i / count\<rfloor> := resources ! nat \<lfloor>real i / count\<rfloor> @ resource]"

definition batchResources :: "Resource list \<Rightarrow> real \<Rightarrow> Resource list" where
  "batchResources source count =
     (if count < 1 then source
      else
        let resources = replicate (nat (\<lfloor>real (length source) / count\<rfloor> + 1)) [];
            resources = foldl (batch_push count) resources (enumerate 0 source)
        in if resources ! (length resources - 1) = [] then butlast resources
           else resources)"

section \<open>Properties of batchResources\<close>

lemma concat_update_last_nonempty:
  assumes "k < length xs" and "\<forall>j. k < j \<and> j < length xs \<longrightarrow> xs ! j = []"
  shows "concat (xs[k := xs ! k @ r]) = concat xs @ r"
proof -
  have xs: "xs = take k xs @ (xs ! k) # drop (Suc k) xs"
    using assms(1) by (simp add: id_take_nth_drop)
  have "\<forall>ys \<in> set (drop (Suc k) xs). ys = []"
  proof
    fix ys assume "ys \<in> set (drop (Suc k) xs)"
    then obtain j where "j < length (drop (Suc k) xs)" "ys = drop (Suc k) xs ! j"
      by (auto simp: in_set_conv_nth)
    then show "ys = []" using assms(2) by simp
  qed
  then have d: "concat (drop (Suc k) xs) = []" by simp
  have "xs[k := xs ! k @ r] = take k xs @ (xs ! k @ r) # drop (Suc k) xs"
    using assms(1) by (simp add: upd_conv_take_nth_drop)
  then have "concat (xs[k := xs ! k @ r]) = concat (take k xs) @ xs ! k @ r"
    using d by simp
  moreover have "concat xs = concat (take k xs) @ xs ! k"
    using d by (subst xs) simp
  ultimately show ?thesis by simp
qed

lemma batch_index_mono:
  "1 \<le> count \<Longrightarrow> i \<le> m \<Longrightarrow> nat \<lfloor>real i / count\<rfloor> \<le> nat \<lfloor>real m / count\<rfloor>"
  by (intro nat_mono floor_mono divide_right_mono) simp_all

lemma batch_index_bound:
  assumes "1 \<le> count" and "i < n"
  shows "nat \<lfloor>real i / count\<rfloor> < nat (\<lfloor>real n / count\<rfloor> + 1)"
proof -
  have "\<lfloor>real i / count\<rfloor> \<le> \<lfloor>real n / count\<rfloor>"
    using assms by (intro floor_mono divide_right_mono) simp_all
  moreover have "0 \<le> \<lfloor>real i / count\<rfloor>" using assms(1) by simp
  ultimately show ?thesis by linarith
qed

lemma foldl_batch_push:
  assumes c: "1 \<le> count"
  shows "\<lbrakk>\<forall>i < m + length src. nat \<lfloor>real i / count\<rfloor> < length res;
          \<forall>j < length res. (\<forall>i < m. nat \<lfloor>real i / count\<rfloor> < j) \<longrightarrow> res ! j = []\<rbrakk>
         \<Longrightarrow> concat (foldl (batch_push count) res (enumerate m src)) = concat res @ concat src
           \<and> length (foldl (batch_push count) res (enumerate m src)) = length res"
proof (induction src arbitrary: m res)
  case Nil
  then show ?case by simp
next
  case (Cons r src)
  let ?k = "nat \<lfloor>real m / count\<rfloor>"
  let ?res = "res[?k := res ! ?k @ r]"
  have k: "?k < length res" using Cons.prems(1) by simp
  have mono: "\<And>i. i < m \<Longrightarrow> nat \<lfloor>real i / count\<rfloor> \<le> ?k"
    using c by (intro batch_index_mono) simp_all
  have empty: "\<forall>j. ?k < j \<and> j < length res \<longrightarrow> res ! j = []"
    using Cons.prems(2) mono by (meson le_less_trans)
  have step: "concat ?res = concat res @ r"
    using concat_update_last_nonempty [OF k empty] .
  have p1: "\<forall>i < Suc m + length src. nat \<lfloor>real i / count\<rfloor> < length ?res"
    using Cons.prems(1) by simp
  have p2: "\<forall>j < length ?res. (\<forall>i < Suc m. nat \<lfloor>real i / count\<rfloor> < j) \<longrightarrow> ?res ! j = []"
  proof (intro allI impI)
    fix j assume j: "j < length ?res" and a: "\<forall>i < Suc m. nat \<lfloor>real i / count\<rfloor> < j"
    then have "?k < j" by simp
    moreover have "\<forall>i < m. nat \<lfloor>real i / count\<rfloor> < j" using a by simp
    ultimately show "?res ! j = []" using Cons.prems(2) j by simp
  qed
  from Cons.IH [OF p1 p2] step show ?case by simp
qed

lemma batchResources_concat_aux:
  assumes c: "1 \<le> count"
  shows "concat (batchResources source count) = concat source"
proof -
  let ?N = "nat (\<lfloor>real (length source) / count\<rfloor> + 1)"
  let ?res = "foldl (batch_push count) (replicate ?N []) (enumerate 0 source)"
  have N: "\<forall>i < 0 + length source. nat \<lfloor>real i / count\<rfloor> < length (replicate ?N ([]::Resource))"
    using batch_index_bound [OF c] by simp
  have E: "\<forall>j < length (replicate ?N ([]::Resource)).
      (\<forall>i < 0. nat \<lfloor>real i / count\<rfloor> < j) \<longrightarrow> replicate ?N ([]::Resource) ! j = []"
    by simp
  from foldl_batch_push [OF c N E]
  have r: "concat ?res = concat source" and l: "length ?res = ?N" by simp_all
  have "0 \<le> \<lfloor>real (length source) / count\<rfloor>" using c by simp
  then have "0 < ?N" by linarith
  then have "0 < length ?res" using l by (simp only:)
  then have "?res \<noteq> []" by blast
  then have bl: "?res ! (length ?res - 1) = [] \<Longrightarrow> concat (butlast ?res) = concat ?res"
    by (metis append_butlast_last_id concat_append concat.simps append_Nil2 last_conv_nth)
  show ?thesis
    using c r bl by (simp add: batchResources_def Let_def)
qed

text \<open>
  Claim C10. For every list of resources and every count of at least 1, the quads of the
  batches, concatenated in order, are the quads of the input resources concatenated in
  order: none is lost, duplicated or moved. For every count below 1 the source
  collection itself is returned.
\<close>

theorem batchResources_preserves_quads:
  "(1 \<le> count \<longrightarrow> concat (batchResources source count) = concat source) \<and>
   (count < 1 \<longrightarrow> batchResources source count = source)"
  using batchResources_concat_aux [of count source] by (simp add: batchResources_def)

theorem batchResources_preserves_quads_witness:
  "batchResources
     [[Quad (NamedNode ''a'') (NamedNode ''p'') (Literal ''1'' [] [])],
      [Quad (NamedNode ''b'') (NamedNode ''p'') (Literal ''2'' [] [])],
      [Quad (NamedNode ''c'') (NamedNode ''p'') (Literal ''3'' [] [])]] 2 =
     [[Quad (NamedNode ''a'') (NamedNode ''p'') (Literal ''1'' [] []),
       Quad (NamedNode ''b'') (NamedNode ''p'') (Literal ''2'' [] [])],
      [Quad (NamedNode ''c'') (NamedNode ''p'') (Literal ''3'' [] [])]] \<and>
   concat (batchResources
     [[Quad (NamedNode ''a'') (NamedNode ''p'') (Literal ''1'' [] [])],
      [Quad (NamedNode ''b'') (NamedNode ''p'') (Literal ''2'' [] [])],
      [Quad (NamedNode ''c'') (NamedNode ''p'') (Literal ''3'' [] [])]] 2) =
     [Quad (NamedNode ''a'') (NamedNode ''p'') (Literal ''1'' [] []),
      Quad (NamedNode ''b'') (NamedNode ''p'') (Literal ''2'' [] []),
      Quad (NamedNode ''c'') (NamedNode ''p'') (Literal ''3'' [] [])] \<and>
   batchResources [[Quad (NamedNode ''a'') (NamedNode ''p'') (Literal ''1'' [] [])]] 0 =
     [[Quad (NamedNode ''a'') (NamedNode ''p'') (Literal ''1'' [] [])]]"
  using batchResources_preserves_quads [of 2
     "[[Quad (NamedNode ''a'') (NamedNode ''p'') (Literal ''1'' [] [])],
      [Quad (NamedNode ''b'') (NamedNode ''p'') (Literal ''2'' [] [])],
      [Quad (NamedNode ''c'') (NamedNode ''p'') (Literal ''3'' [] [])]]"]
    batchResources_preserves_quads [of 0
     "[[Quad (NamedNode ''a'') (NamedNode ''p'') (Literal ''1'' [] [])]]"]
  by (simp add: batchResources_def Let_def numeral_2_eq_2 numeral_3_eq_3)

section \<open>Properties of extractResources\<close>

lemma walk_keeps_quads:
  assumes "walk store mains ex quads i = Some r"
  shows "set quads \<subseteq> set r"
proof (rule walk.raw_induct [where P = "\<lambda>store mains ex quads i r. set quads \<subseteq> set r", OF _ assms])
  fix walk' store mains ex quads i r
  assume IH: "\<And>st mains ex quads i y. walk' st mains ex quads i = Some y \<Longrightarrow> set quads \<subseteq> set y"
    and body: "(if i < length quads then
        (let quad = quads ! i in
         if term_id (object quad) \<in> ex then walk' store mains ex quads (Suc i)
         else walk' store mains (insert (term_id (object quad)) ex)
             (quads @
                filter (\<lambda>obj. term_id (object obj) = term_id (subject (quads ! 0)) \<or>
                              term_id (object obj) \<notin> mains)
                  (getQuads store (Some (term_id (object quad))) None None))
             (Suc i))
      else Some quads) = Some r"
  show "set quads \<subseteq> set r"
  proof (cases "i < length quads")
    case False
    with body show ?thesis by simp
  next
    case True
    show ?thesis
    proof (cases "term_id (object (quads ! i)) \<in> ex")
      case seen: True
      with body True have "walk' store mains ex quads (Suc i) = Some r"
        by (simp add: Let_def)
      then show ?thesis by (rule IH)
    next
      case unseen: False
      with body True obtain new where
        "walk' store mains (insert (term_id (object (quads ! i))) ex) (quads @ new) (Suc i) = Some r"
        by (simp add: Let_def)
      then have "set (quads @ new) \<subseteq> set r" by (rule IH)
      then show ?thesis by simp
    qed
  qed
qed

lemma walk_all_keeps_quads:
  "walk_all store mains resources = Some rs \<Longrightarrow>
   length rs = length resources \<and> (\<forall>k < length rs. set (resources ! k) \<subseteq> set (rs ! k))"
proof (induction resources arbitrary: rs)
  case Nil
  then show ?case by simp
next
  case (Cons quads resources)
  from Cons.prems obtain r rs' where
    r: "walk store mains {term_id (subject (quads ! 0))} quads 0 = Some r" and
    rs': "walk_all store mains resources = Some rs'" and rs: "rs = r # rs'"
    by (auto split: option.splits)
  from Cons.IH [OF rs'] have len: "length rs' = length resources"
    and sub: "\<forall>k < length rs'. set (resources ! k) \<subseteq> set (rs' ! k)" by simp_all
  have "set ((quads # resources) ! k) \<subseteq> set (rs ! k)" if "k < length rs" for k
  proof (cases k)
    case 0
    then show ?thesis using walk_keeps_quads [OF r] rs by simp
  next
    case (Suc j)
    then show ?thesis using that sub rs by simp
  qed
  then show ?case using len rs by simp
qed

text \<open>
  Claim C6. For every store, tree path and stream identifier, the \<open>k\<close>-th resource that
  \<open>extractResources\<close> returns belongs to the \<open>k\<close>-th main subject: it contains the
  \<open>tree:member\<close> quad from the stream to that subject and every quad of the store with
  that subject (so every quad asserting the tree path on it).
\<close>

theorem extractResources_contains:
  assumes "extractResources store path eventStreamURI = Some resources"
    and "k < length resources"
  shows "k < length (getSubjects store (Some path) None) \<and>
     Quad (NamedNode eventStreamURI) (NamedNode TREE_member)
        (getSubjects store (Some path) None ! k) \<in> set (resources ! k) \<and>
     (\<forall>q \<in> set store.
        term_id (subject q) = term_id (getSubjects store (Some path) None ! k) \<longrightarrow>
        q \<in> set (resources ! k))"
proof -
  let ?mains = "getSubjects store (Some path) None"
  let ?init = "map (initial_resource store eventStreamURI) ?mains"
  from assms(1) have w: "walk_all store (set (map term_id ?mains)) ?init = Some resources"
    by (simp add: extractResources_def Let_def)
  from walk_all_keeps_quads [OF w]
  have l: "length resources = length ?init"
    and s: "\<forall>k < length resources. set (?init ! k) \<subseteq> set (resources ! k)" by blast+
  from l assms(2) have len: "k < length ?mains" by simp
  from s assms(2) have sub: "set (?init ! k) \<subseteq> set (resources ! k)" by blast
  have init: "?init ! k = initial_resource store eventStreamURI (?mains ! k)"
    using len by simp
  have "Quad (NamedNode eventStreamURI) (NamedNode TREE_member) (?mains ! k) \<in> set (?init ! k)"
    by (simp add: init initial_resource_def)
  moreover have "q \<in> set (?init ! k)"
    if "q \<in> set store" "term_id (subject q) = term_id (?mains ! k)" for q
    using that by (simp add: init initial_resource_def getQuads_def)
  ultimately show ?thesis using len sub by (auto simp: init)
qed

definition ex_store :: Store where
  "ex_store =
    [Quad (NamedNode ''a'') (NamedNode ''created'') (Literal ''t'' [] []),
     Quad (NamedNode ''a'') (NamedNode ''knows'') (NamedNode ''b''),
     Quad (NamedNode ''b'') (NamedNode ''knows'') (NamedNode ''a''),
     Quad (NamedNode ''b'') (NamedNode ''self'') (NamedNode ''b'')]"

lemma extractResources_cyclic:
  "extractResources cyclic_store ''created'' ''s'' = Some [cyclic_resource]"
  by (simp add: extractResources_def cyclic_store_def cyclic_resource_def getSubjects_def
      getQuads_def unique_terms_def initial_resource_def Quad_def walk.simps Let_def)

theorem extractResources_contains_witness:
  "extractResources cyclic_store ''created'' ''s'' = Some [cyclic_resource] \<and>
   getSubjects cyclic_store (Some ''created'') None = [NamedNode ''a''] \<and>
   Quad (NamedNode ''s'') (NamedNode TREE_member) (NamedNode ''a'') \<in> set cyclic_resource \<and>
   Quad (NamedNode ''a'') (NamedNode ''created'') (Literal ''t'' [] []) \<in> set cyclic_resource \<and>
   Quad (NamedNode ''a'') (NamedNode ''knows'') (NamedNode ''b'') \<in> set cyclic_resource"
proof -
  have m: "getSubjects cyclic_store (Some ''created'') None = [NamedNode ''a'']"
    by (simp add: cyclic_store_def getSubjects_def getQuads_def unique_terms_def Quad_def)
  have k: "0 < length [cyclic_resource]" by simp
  from extractResources_contains [OF extractResources_cyclic k]
  have "Quad (NamedNode ''s'') (NamedNode TREE_member) (NamedNode ''a'') \<in> set cyclic_resource"
    and "\<forall>q \<in> set cyclic_store. term_id (subject q) = ''a'' \<longrightarrow> q \<in> set cyclic_resource"
    by (simp_all add: m)
  then show ?thesis
    using extractResources_cyclic m by (simp add: cyclic_store_def Quad_def)
qed


lemma object_ids_getQuads:
  "object_ids store (quads @ filter P (getQuads store s p ob)) = object_ids store quads"
  by (auto simp: object_ids_def getQuads_def)

lemma walk_terminates: "\<exists>r. walk store mains ex quads i = Some r"
proof -
  let ?f1 = "\<lambda>(ex, quads, i). card (object_ids store quads - ex)"
  let ?f2 = "\<lambda>(ex, quads, i). length quads - i"
  have "\<exists>r. walk store mains (fst x) (fst (snd x)) (snd (snd x)) = Some r" for x :: "string set \<times> quad list \<times> nat"
  proof (induction x rule: wf_induct_rule [OF wf_measures [of "[?f1, ?f2]"]])
    case (1 x)
    obtain ex quads i where x: "x = (ex, quads, i)" by (cases x) auto
    show ?case
    proof (cases "i < length quads")
      case False
      then show ?thesis by (subst walk.simps) (simp add: x)
    next
      case True
      let ?o = "term_id (object (quads ! i))"
      show ?thesis
      proof (cases "?o \<in> ex")
        case seen: True
        have "((ex, quads, Suc i), x) \<in> measures [?f1, ?f2]"
          using True by (simp add: x)
        from 1 [OF this] show ?thesis
          using True seen by (subst walk.simps) (simp add: x)
      next
        case unseen: False
        let ?new = "filter (\<lambda>obj. term_id (object obj) = term_id (subject (quads ! 0)) \<or>
                              term_id (object obj) \<notin> mains)
                  (getQuads store (Some ?o) None None)"
        have fin: "finite (object_ids store quads - ex)" by (simp add: object_ids_def)
        have mem: "?o \<in> object_ids store quads - ex"
          using True unseen by (auto simp: object_ids_def)
        have "object_ids store (quads @ ?new) - insert ?o ex \<subset> object_ids store quads - ex"
          using mem by (auto simp: object_ids_getQuads)
        then have "card (object_ids store (quads @ ?new) - insert ?o ex) < card (object_ids store quads - ex)"
          using fin by (rule psubset_card_mono [rotated])
        then have "((insert ?o ex, quads @ ?new, Suc i), x) \<in> measures [?f1, ?f2]"
          by (simp add: x)
        from 1 [OF this] show ?thesis
          using True unseen by (subst walk.simps) (simp add: x Let_def)
      qed
    qed
  qed
  from this [of "(ex, quads, i)"] show ?thesis by simp
qed

lemma walk_all_terminates: "\<exists>rs. walk_all store mains resources = Some rs"
proof (induction resources)
  case Nil
  then show ?case by simp
next
  case (Cons quads resources)
  obtain r where "walk store mains {term_id (subject (quads ! 0))} quads 0 = Some r"
    using walk_terminates by blast
  with Cons show ?case by auto
qed

text \<open>
  Claim C7. For every finite triple collection, with cycles of any length and self-loops
  or without, \<open>extractResources\<close> returns: each walk marks an object id the first time
  it meets it and never expands it again, so the working list stops growing.
\<close>

theorem extractResources_terminates:
  "\<exists>resources. extractResources store path eventStreamURI = Some resources"
  by (simp add: extractResources_def Let_def walk_all_terminates)

section \<open>Properties of generateShape\<close>




















section \<open>Properties of resourceToOptimisedTurtle\<close>


lemma keys_set_predicate:
  "map fst (set_predicate p ob props) =
     (if p \<in> fst ` set props then map fst props else map fst props @ [p])"
  by (induction props) (auto simp: rev_image_eqI)

lemma distinct_set_predicate:
  "distinct (map fst props) \<Longrightarrow> distinct (map fst (set_predicate p ob props))"
  by (simp add: keys_set_predicate)


lemma keys_set_subject:
  "map fst (set_subject s p ob data) =
     (if s \<in> fst ` set data then map fst data else map fst data @ [s])"
  by (induction data) (auto simp: rev_image_eqI)

lemma distinct_set_subject:
  "distinct (map fst data) \<Longrightarrow> distinct (map fst (set_subject s p ob data))"
  by (simp add: keys_set_subject)































section \<open>The choice of a bucket\<close>

lemma findIndex_none: "findIndex P xs = - 1 \<longleftrightarrow> (\<forall>x \<in> set xs. \<not> P x)"
proof (induction xs)
  case Nil
  then show ?case by simp
next
  case (Cons x xs)
  have "0 \<le> findIndex P xs \<or> findIndex P xs = - 1" for xs
    by (induction xs) (auto simp: Let_def)
  from this [of xs] Cons show ?case by (auto simp: Let_def)
qed

lemma findIndex_range: "findIndex P xs = - 1 \<or> (0 \<le> findIndex P xs \<and> findIndex P xs < int (length xs))"
  by (induction xs) (auto simp: Let_def)

lemma findIndex_first:
  "findIndex P xs \<noteq> - 1 \<Longrightarrow>
   P (xs ! nat (findIndex P xs)) \<and> (\<forall>k < nat (findIndex P xs). \<not> P (xs ! k))"
proof (induction xs)
  case Nil
  then show ?case by simp
next
  case (Cons x xs)
  show ?case
  proof (cases "P x")
    case True
    then show ?thesis by simp
  next
    case False
    with Cons.prems have n: "findIndex P xs \<noteq> - 1" by (auto simp: Let_def)
    with findIndex_range [of P xs] have r: "0 \<le> findIndex P xs" by auto
    from n False have val: "findIndex P (x # xs) = findIndex P xs + 1"
      by (simp add: Let_def)
    with r have eq: "nat (findIndex P (x # xs)) = Suc (nat (findIndex P xs))"
      by (simp add: nat_add_distrib)
    from Cons.IH [OF n] have 1: "P (xs ! nat (findIndex P xs))"
      and 2: "\<forall>k < nat (findIndex P xs). \<not> P (xs ! k)" by simp_all
    have "\<not> P ((x # xs) ! k)" if "k < Suc (nat (findIndex P xs))" for k
      using that False 2 by (cases k) simp_all
    with 1 show ?thesis by (simp only: eq nth_Cons_Suc) simp
  qed
qed

text \<open>
  \<open>getBucket\<close> on sorted boundaries and a resource with a time: an error when the time
  precedes every boundary, else the bucket of the greatest boundary that does not
  exceed the time, which is the newest bucket when the time exceeds every boundary.
\<close>

lemma getBucket_selects:
  assumes ts: "getTimeStamp extractTimestampFromLiteral resource (treePath s) = Inr (Some t)"
    and ne: "buckets s \<noteq> []"
    and sorted: "sorted (map time (buckets s))"
  shows "(t < time (hd (buckets s)) \<longrightarrow>
            getBucket extractTimestampFromLiteral s resource = Inl InvalidSample) \<and>
         (time (hd (buckets s)) \<le> t \<longrightarrow>
            (\<exists>b. getBucket extractTimestampFromLiteral s resource = Inr (Some b) \<and>
                 b \<in> set (buckets s) \<and> time b \<le> t \<and>
                 (\<forall>b' \<in> set (buckets s). time b' \<le> t \<longrightarrow> time b' \<le> time b))) \<and>
         ((\<forall>b \<in> set (buckets s). time b \<le> t) \<longrightarrow>
            getBucket extractTimestampFromLiteral s resource = Inr (Some (last (buckets s))))"
proof -
  define P :: "date \<Rightarrow> bool" where "P = (\<lambda>bucketDate. time bucketDate > t)"
  define idx where "idx = findIndex P (buckets s)"
  have g: "getBucket extractTimestampFromLiteral s resource =
      (if idx = 0 then Inl InvalidSample
       else if idx = - 1 then Inr (Some (last (buckets s)))
       else Inr (Some (buckets s ! nat (idx - 1))))"
    using ne by (simp add: getBucket_def ts Let_def idx_def P_def)
  have hd: "hd (buckets s) = buckets s ! 0" using ne by (simp add: hd_conv_nth)
  have mono: "time (buckets s ! k) \<le> time (buckets s ! m)" if "k \<le> m" "m < length (buckets s)" for k m
    using sorted that by (simp add: sorted_iff_nth_mono)
  have a: "getBucket extractTimestampFromLiteral s resource = Inl InvalidSample" if "t < time (hd (buckets s))"
  proof -
    have "P (buckets s ! 0)" using that by (simp add: P_def hd)
    then have "findIndex P (buckets s) = 0" using ne by (cases "buckets s") simp_all
    then show ?thesis by (simp add: g idx_def)
  qed
  have c: "getBucket extractTimestampFromLiteral s resource = Inr (Some (last (buckets s)))"
    if "\<forall>b \<in> set (buckets s). time b \<le> t"
  proof -
    from that have "idx = - 1" by (simp add: idx_def findIndex_none P_def not_less)
    then show ?thesis by (simp add: g)
  qed
  have b: "\<exists>b. getBucket extractTimestampFromLiteral s resource = Inr (Some b) \<and>
                 b \<in> set (buckets s) \<and> time b \<le> t \<and>
                 (\<forall>b' \<in> set (buckets s). time b' \<le> t \<longrightarrow> time b' \<le> time b)"
    if le: "time (hd (buckets s)) \<le> t"
  proof (cases "idx = - 1")
    case True
    then have all: "\<forall>b \<in> set (buckets s). time b \<le> t"
      by (simp add: idx_def findIndex_none P_def not_less)
    have l: "last (buckets s) = buckets s ! (length (buckets s) - 1)" using ne by (rule last_conv_nth)
    have "time b' \<le> time (last (buckets s))" if "b' \<in> set (buckets s)" for b'
    proof -
      from that obtain k where "k < length (buckets s)" "b' = buckets s ! k"
        by (auto simp: in_set_conv_nth)
      then show ?thesis using mono [of k "length (buckets s) - 1"] by (simp add: l)
    qed
    with c [OF all] all ne show ?thesis by auto
  next
    case False
    with findIndex_range [of P "buckets s"] have r: "0 \<le> idx" "idx < int (length (buckets s))"
      by (simp_all add: idx_def)
    from findIndex_first [of P "buckets s"] False
    have f: "P (buckets s ! nat idx)" "\<forall>k < nat idx. \<not> P (buckets s ! k)" by (simp_all add: idx_def)
    have "\<not> P (buckets s ! 0)" using le by (simp add: P_def hd)
    with f(1) have "idx \<noteq> 0" by auto
    with r have pos: "0 < idx" by simp
    define j where "j = nat (idx - 1)"
    have j: "j < nat idx" "j < length (buckets s)" "nat idx = Suc j" "nat idx < length (buckets s)"
      using pos r by (simp_all add: j_def)
    have res: "getBucket extractTimestampFromLiteral s resource = Inr (Some (buckets s ! j))"
      using False pos by (simp add: g j_def)
    have tj: "time (buckets s ! j) \<le> t" using f(2) j(1) by (simp add: P_def not_less)
    have "time b' \<le> time (buckets s ! j)" if b': "b' \<in> set (buckets s)" "time b' \<le> t" for b'
    proof -
      from b'(1) obtain k where k: "k < length (buckets s)" "b' = buckets s ! k"
        by (auto simp: in_set_conv_nth)
      have "k \<le> j"
      proof (rule ccontr)
        assume "\<not> k \<le> j"
        then have "nat idx \<le> k" using j(3) by simp
        from mono [OF this k(1)] f(1) b'(2) k(2) show False by (simp add: P_def)
      qed
      from mono [OF this j(2)] k(2) show ?thesis by simp
    qed
    with res tj j(2) show ?thesis by auto
  qed
  from a b c show ?thesis by blast
qed

lemma getBucket_member:
  assumes "getBucket extractTimestampFromLiteral s resource = Inr (Some bucket)"
  shows "bucket \<in> set (buckets s)"
proof -
  from assms obtain resourceDate where
    "getTimeStamp extractTimestampFromLiteral resource (treePath s) = Inr resourceDate"
    by (auto simp: getBucket_def split: sum.splits)
  define P :: "date \<Rightarrow> bool" where
    "P = (\<lambda>bucketDate. case resourceDate of None \<Rightarrow> False | Some t \<Rightarrow> time bucketDate > t)"
  define idx where "idx = findIndex P (buckets s)"
  have "getBucket extractTimestampFromLiteral s resource =
      (if idx = 0 then Inl InvalidSample
       else if idx = - 1 then Inr (if buckets s = [] then None else Some (last (buckets s)))
       else Inr (Some (buckets s ! nat (idx - 1))))"
    unfolding getBucket_def Let_def idx_def P_def
      \<open>getTimeStamp extractTimestampFromLiteral resource (treePath s) = Inr resourceDate\<close>
      sum.case ..
  with assms have g: "(if idx = 0 then Inl InvalidSample
       else if idx = - 1 then Inr (if buckets s = [] then None else Some (last (buckets s)))
       else Inr (Some (buckets s ! nat (idx - 1)))) = Inr (Some bucket)"
    by (simp only:)
  show ?thesis
  proof (cases "idx = - 1")
    case True
    with g have "buckets s \<noteq> []" "bucket = last (buckets s)" by (auto split: if_splits)
    then show ?thesis by simp
  next
    case False
    with g have z: "idx \<noteq> 0" and b: "bucket = buckets s ! nat (idx - 1)" by (auto split: if_splits)
    from False findIndex_range [of P "buckets s"] have "0 \<le> idx" "idx < int (length (buckets s))"
      by (simp_all add: idx_def)
    with z have "nat (idx - 1) < length (buckets s)" by simp
    then show ?thesis by (simp add: b)
  qed
qed

text \<open>\<open>publish\<close> appends to a bucket that is in the list, so the list stays as it is.\<close>

lemma publish_keeps_buckets:
  "buckets (snd (publish extractTimestampFromLiteral dateToString resource s)) = buckets s"
proof (cases "getBucket extractTimestampFromLiteral s (concat resource)")
  case (Inl e)
  then show ?thesis by (simp add: publish_def)
next
  case (Inr b)
  show ?thesis
  proof (cases b)
    case None
    with Inr show ?thesis by (simp add: publish_def)
  next
    case (Some bucket)
    with Inr have "bucket \<in> set (buckets s)" by (intro getBucket_member) simp
    then have "ref bucket \<in> set (map ref (buckets s))" by simp
    then have "buckets (snd (append dateToString (concat resource) bucket s)) = buckets s"
      by (simp add: append_def addToBucket_def split: sum.splits)
    with Inr Some show ?thesis by (simp add: publish_def)
  qed
qed


lemma closer_chosen:
  assumes "chosen t pre acc"
    and "case relation_value r of None \<Rightarrow> True | Some x \<Rightarrow> 0 < x"
  shows "chosen t (pre @ [r]) (closer (Some t) acc r)"
proof -
  obtain tjs url where acc: "acc = (tjs, url)" by (cases acc)
  show ?thesis
  proof (cases "relation_value r")
    case None
    with assms(1) show ?thesis by (simp add: acc chosen_def candidates_def)
  next
    case (Some x)
    with assms(2) have x: "0 < x" by simp
    show ?thesis
    proof (cases "x \<le> t")
      case False
      with Some assms(1) show ?thesis by (simp add: acc chosen_def candidates_def)
    next
      case True
      then have c: "candidates t (pre @ [r]) = candidates t pre @ [r]"
        using Some by (simp add: candidates_def)
      from assms(1) consider
        (empty) "candidates t pre = []" "tjs = 0" "url = ''none''" |
        (some) r0 where "r0 \<in> set (candidates t pre)" "relation_value r0 = Some tjs" "url = node r0"
          "\<forall>r' \<in> set (candidates t pre). \<forall>x. relation_value r' = Some x \<longrightarrow> x \<le> tjs"
        by (auto simp: chosen_def acc)
      then show ?thesis
      proof cases
        case empty
        with x True Some show ?thesis by (simp add: acc chosen_def c)
      next
        case some
        show ?thesis
        proof (cases "tjs < x")
          case True
          with some \<open>x \<le> t\<close> Some show ?thesis
            by (auto simp: acc chosen_def c)
        next
          case False
          with some \<open>x \<le> t\<close> Some show ?thesis
            by (auto simp: acc chosen_def c)
        qed
      qed
    qed
  qed
qed

lemma foldl_closer_chosen:
  "chosen t pre acc \<Longrightarrow>
   list_all (\<lambda>r. case relation_value r of None \<Rightarrow> True | Some x \<Rightarrow> 0 < x) relations \<Longrightarrow>
   chosen t (pre @ relations) (foldl (closer (Some t)) acc relations)"
proof (induction relations arbitrary: pre acc)
  case Nil
  then show ?case by simp
next
  case (Cons r relations)
  from Cons.prems have "chosen t (pre @ [r]) (closer (Some t) acc r)"
    by (intro closer_chosen) simp_all
  from Cons.IH [OF this] Cons.prems(2) show ?case by simp
qed

text \<open>
  \<open>calculateBucket\<close> when every boundary is after the epoch: \<open>none\<close> when the time precedes
  every boundary, else the node of a relation with the greatest boundary that does not
  exceed the time.
\<close>

lemma calculateBucket_after_epoch:
  assumes "getTimeStamp extractTimestampFromLiteral resource (timestampPath metadata) = Inr (Some t)"
    and "views metadata = relations # vs"
    and "list_all (\<lambda>r. case relation_value r of None \<Rightarrow> True | Some x \<Rightarrow> 0 < x) relations"
  shows "(candidates t relations = [] \<longrightarrow>
            calculateBucket extractTimestampFromLiteral resource metadata = Inr ''none'') \<and>
         (candidates t relations \<noteq> [] \<longrightarrow>
            (\<exists>r \<in> set (candidates t relations).
               calculateBucket extractTimestampFromLiteral resource metadata = Inr (node r) \<and>
               (\<forall>r' \<in> set (candidates t relations). \<forall>x y.
                  relation_value r' = Some x \<and> relation_value r = Some y \<longrightarrow> x \<le> y)))"
proof -
  have "chosen t [] (0, ''none'')" by (simp add: chosen_def candidates_def)
  from foldl_closer_chosen [OF this assms(3)]
  have c: "chosen t relations (foldl (closer (Some t)) (0, ''none'') relations)" by simp
  have r: "calculateBucket extractTimestampFromLiteral resource metadata =
      Inr (snd (foldl (closer (Some t)) (0, ''none'') relations))"
    by (simp add: calculateBucket_def assms(1,2))
  from c show ?thesis unfolding chosen_def r by auto
qed

section \<open>The publisher on the scenarios of the specification\<close>

text \<open>
  Claim C1 says that a transfer is bounded by the spare capacity of the receiving
  bucket and that a negative amount is never returned. The code computes the second
  bound as \<open>to[1].length - this.bucketSize\<close>, the negation of the spare capacity. In the
  scenario, from the bucket of 3 into the bucket of 1 with bucket size 2, it returns
  -1 and moves nothing although the receiver has room for one; between the crowded
  buckets of 4 and 3 it returns 1 and moves a member into a bucket that is already
  above the bucket size.
\<close>

theorem rebalance_pair_negative_amount:
  "rebalance_pair scenario_members dateToString 2 1 0 fetched = (Inr (- 1), fetched) \<and>
   fst (rebalance_pair crowded_members dateToString 2 1 0 crowded) = Inr 1 \<and>
   bucketData (snd (rebalance_pair crowded_members dateToString 2 1 0 crowded)) =
     [(\<lparr>ref = 0, time = 1000\<rparr>, [Some ''r0'', Some ''r1'', Some ''r2'', Some ''r6'']),
      (\<lparr>ref = 1, time = 2000\<rparr>, [Some ''r3'', Some ''r4'', Some ''r5''])]"
  by (simp add: rebalance_pair_def fetched_def scenario_def crowded_def crowded_members_def
      move_def removeFromBucket_def append_def resourceToOptimisedTurtle_def addElements_def
      write_all_def addToBucket_def Let_def)

text \<open>
  Claim C4 says that assignment selects the greatest boundary that does not exceed the
  timestamp of the resource. \<open>calculateBucket\<close> starts its search at a
  \<open>timestampJustSmaller\<close> of 0 and needs a boundary strictly above it, so a boundary at
  the epoch (or before it) is never selected: for a resource 5 ms after the epoch and
  the one boundary at the epoch, it returns \<open>none\<close>.
\<close>

theorem calculateBucket_epoch_boundary:
  "calculateBucket (\<lambda>l. Inr (Some 5))
     [Quad (NamedNode ''http://example.org/a'') (NamedNode ''http://purl.org/dc/terms/created'')
        (Literal ''1970-01-01T00:00:00.005Z'' [] ''http://www.w3.org/2001/XMLSchema#dateTime'')]
     \<lparr>views = [[\<lparr>relation_value = Some 0, node = ''http://localhost:3000/stream/0/''\<rparr>]],
      timestampPath = ''http://purl.org/dc/terms/created''\<rparr> = Inr ''none''"
  by (simp add: calculateBucket_def getTimeStamp_def)

lemma strictly_increasing_distinct: "strictly_increasing ts \<Longrightarrow> distinct ts"
  by (simp add: strictly_increasing_def strict_sorted_iff)

text \<open>
  Claim C3 says that the boundaries strictly increase after every operation. \<open>append\<close>
  of a bucket that is not known yet calls \<open>_createBucket\<close>, which pushes the date, and
  then pushes the date again, so the boundary is in the list twice whatever order the
  sort gives: the times do not strictly increase.
\<close>

theorem append_new_bucket_twice:
  "fst (append dateToString [] \<lparr>ref = 3, time = 4000\<rparr> scenario) = None \<and>
   buckets (snd (append dateToString [] \<lparr>ref = 3, time = 4000\<rparr> scenario)) =
     sort_key dateToString (buckets scenario @ [\<lparr>ref = 3, time = 4000\<rparr>, \<lparr>ref = 3, time = 4000\<rparr>]) \<and>
   \<not> strictly_increasing
       (map time (buckets (snd (append dateToString [] \<lparr>ref = 3, time = 4000\<rparr> scenario))))"
proof -
  let ?s = "snd (append dateToString [] \<lparr>ref = 3, time = 4000\<rparr> scenario)"
  have e: "fst (append dateToString [] \<lparr>ref = 3, time = 4000\<rparr> scenario) = None"
    and b: "buckets ?s = sort_key dateToString
      (buckets scenario @ [\<lparr>ref = 3, time = 4000\<rparr>, \<lparr>ref = 3, time = 4000\<rparr>])"
    by (simp_all add: append_def scenario_def createBucket_def resourceToOptimisedTurtle_def
        addElements_def write_all_def addToBucket_def del: sort_key_simps)
  have "\<not> distinct (buckets ?s)" by (simp only: b distinct_sort) simp
  then have "\<not> distinct (map time (buckets ?s))" by (simp add: distinct_map)
  then have "\<not> strictly_increasing (map time (buckets ?s))"
    using strictly_increasing_distinct by blast
  with e b show ?thesis by blast
qed


lemma rebalance_pair_into_empty:
  assumes "0 \<le> k" and "i < length (bucketData s)" and "j < length (bucketData s)"
    and "snd (bucketData s ! j) = []"
  shows "rebalance_pair getMembers dateToString k i j s =
           (Inr (min (int (length (snd (bucketData s ! i))) - k) (- k)), s)"
  using assms by (simp add: rebalance_pair_def Let_def min_def)

lemma new_buckets_never_ends:
  assumes "0 \<le> k" and "0 < remaining" and "i < length (bucketData s)"
  shows "new_buckets getMembers dateToString clock k i remaining s = None"
proof (rule ccontr)
  assume "new_buckets getMembers dateToString clock k i remaining s \<noteq> None"
  then obtain y where y: "new_buckets getMembers dateToString clock k i remaining s = Some y"
    by auto
  have "\<not> (0 \<le> k \<and> 0 < remaining \<and> i < length (bucketData s))"
  proof (rule new_buckets.raw_induct
      [where P = "\<lambda>getMembers dateToString clock k i remaining s y.
                   \<not> (0 \<le> k \<and> 0 < remaining \<and> i < length (bucketData s))", OF _ y])
    fix f getMembers dateToString clock k i remaining s y
    assume IH: "\<And>getMembers dateToString clock k i remaining s y.
        f getMembers dateToString clock k i remaining s = Some y \<Longrightarrow>
        \<not> (0 \<le> k \<and> 0 < remaining \<and> i < length (bucketData s))"
      and body: "(if remaining > 0 then
        (let newBucket = \<lparr>ref = allocated s, time = clock (allocated s)\<rparr>;
             s1 = s\<lparr>allocated := Suc (allocated s),
                    bucketData := bucketData s @ [(newBucket, [])]\<rparr>
         in case rebalance_pair getMembers dateToString k i (length (bucketData s1) - 1) s1 of
              (Inl e, s2) \<Rightarrow> Some (Some e, s2)
            | (Inr amount, s2) \<Rightarrow> f getMembers dateToString clock k i (remaining - amount) s2)
      else Some (None, s)) = Some y"
    show "\<not> (0 \<le> k \<and> 0 < remaining \<and> i < length (bucketData s))"
    proof
      assume inv: "0 \<le> k \<and> 0 < remaining \<and> i < length (bucketData s)"
      let ?s1 = "s\<lparr>allocated := Suc (allocated s),
             bucketData := bucketData s @ [(\<lparr>ref = allocated s, time = clock (allocated s)\<rparr>, [])]\<rparr>"
      have "rebalance_pair getMembers dateToString k i (length (bucketData s)) ?s1 =
          (Inr (min (int (length (snd (bucketData ?s1 ! i))) - k) (- k)), ?s1)"
        using inv by (intro rebalance_pair_into_empty) simp_all
      then have p: "rebalance_pair getMembers dateToString k i (length (bucketData s)) ?s1 =
          (Inr (- k), ?s1)"
        using inv by (simp add: min_def)
      from body inv have "f getMembers dateToString clock k i (remaining + k) ?s1 = Some y"
        by (simp add: Let_def p)
      from IH [OF this] inv show False by simp
    qed
  qed
  with assms show False by simp
qed

text \<open>
  Claim C5 says that in the scenario (1, 3 and 1 members, bucket size 2) \<open>rebalance\<close>
  ends with 2, 2 and 1 members. The code does not return: both transfers to the
  neighbours come back as -1, which raises \<open>remaining\<close> from 1 to 3, and every round of the
  loop that makes new buckets comes back as -2.
\<close>

theorem rebalance_scenario_never_ends:
  "rebalance scenario_members dateToString clock scenario = None"
proof -
  have f: "scenario\<lparr>bucketData :=
      map (\<lambda>bucket. (bucket, map Some (scenario_members bucket))) (buckets scenario)\<rparr> = fetched"
    by (simp add: scenario_def fetched_def scenario_members_def)
  have len: "length (bucketData fetched) = 3"
    by (simp add: fetched_def scenario_def)
  have e0: "rebalance_entry scenario_members dateToString clock 0 fetched = Some (None, fetched)"
    by (simp add: rebalance_entry_def fetched_def scenario_def)
  have e1: "rebalance_entry scenario_members dateToString clock (Suc 0) fetched =
      new_buckets scenario_members dateToString clock 2 (Suc 0) 3 fetched"
    by (simp add: rebalance_entry_def rebalance_pair_def Let_def fetched_def scenario_def)
  have n: "new_buckets scenario_members dateToString clock 2 (Suc 0) 3 fetched = None"
    by (rule new_buckets_never_ends) (simp_all add: len)
  have l1: "rebalance_loop scenario_members dateToString clock (Suc 0) fetched = None"
    by (subst rebalance_loop.simps) (simp add: e1 n len)
  have "rebalance_loop scenario_members dateToString clock 0 fetched = None"
    by (subst rebalance_loop.simps) (simp add: e0 l1 len)
  then show ?thesis by (simp add: rebalance_def f)
qed

section \<open>Rebalancing keeps the number of resources\<close>

lemma total_members_update:
  "k < length bd \<Longrightarrow>
   total_members (bd[k := (d, ms)]) + length (snd (bd ! k)) = total_members bd + length ms"
proof (induction bd arbitrary: k)
  case Nil
  then show ?case by simp
next
  case (Cons e bd)
  show ?case
  proof (cases k)
    case 0
    then show ?thesis by (simp add: total_members_def)
  next
    case (Suc m)
    with Cons.prems have "m < length bd" by simp
    from Cons.IH [OF this] Suc show ?thesis by (simp add: total_members_def)
  qed
qed

lemma append_keeps:
  "bucketData (snd (append dateToString resource bucket s)) = bucketData s \<and>
   bucketSize (snd (append dateToString resource bucket s)) = bucketSize s"
  by (simp add: append_def createBucket_def addToBucket_def split: sum.splits)

lemma move_keeps:
  "bucketData (snd (move getMembers dateToString resource f t s)) = bucketData s \<and>
   bucketSize (snd (move getMembers dateToString resource f t s)) = bucketSize s"
  by (simp add: move_def removeFromBucket_def append_keeps)

lemma transfer_keeps:
  "\<lbrakk>i < length (bucketData s); j < length (bucketData s); i \<noteq> j;
    n \<le> length (snd (bucketData s ! i));
    transfer getMembers dateToString n i j s = (None, s')\<rbrakk>
   \<Longrightarrow> bucketSize s' = bucketSize s \<and> length (bucketData s') = length (bucketData s) \<and>
       total_members (bucketData s') = total_members (bucketData s)"
proof (induction n arbitrary: s)
  case 0
  then show ?case by simp
next
  case (Suc n)
  define bd where "bd = bucketData s"
  define xs where "xs = snd (bd ! i)"
  define r where "r = (if xs = [] then None else last xs)"
  define s1 where "s1 = s\<lparr>bucketData := bd[i := (fst (bd ! i), butlast xs)]\<rparr>"
  define mv where "mv = move getMembers dateToString r (fst (bd ! i)) (fst (bucketData s1 ! j)) s1"
  define s2 where "s2 = snd mv"
  define s3 where "s3 = s2\<lparr>bucketData := (bucketData s2)
      [j := (fst (bucketData s2 ! j), snd (bucketData s2 ! j) @ [r])]\<rparr>"
  have m: "bucketData s2 = bucketData s1" "bucketSize s2 = bucketSize s1"
    using move_keeps [of getMembers dateToString r _ _ s1] by (simp_all add: s2_def mv_def)
  have unfold: "transfer getMembers dateToString (Suc n) i j s =
      (case mv of (Some e, s2) \<Rightarrow> (Some e, s2)
       | (None, s2) \<Rightarrow> transfer getMembers dateToString n i j
           (s2\<lparr>bucketData := (bucketData s2)
              [j := (fst (bucketData s2 ! j), snd (bucketData s2 ! j) @ [r])]\<rparr>))"
    unfolding mv_def s1_def r_def xs_def bd_def transfer.simps Let_def ..
  from Suc.prems(5) have rec: "transfer getMembers dateToString n i j s3 = (None, s')"
    unfolding unfold s3_def s2_def by (cases mv) (auto split: option.splits)
  have i: "i < length bd" and j: "j < length bd" using Suc.prems(1,2) by (simp_all add: bd_def)
  have bd1: "bucketData s1 = bd[i := (fst (bd ! i), butlast xs)]" "bucketSize s1 = bucketSize s"
    by (simp_all add: s1_def)
  have bd3: "bucketData s3 = bd[i := (fst (bd ! i), butlast xs),
      j := (fst (bd ! j), snd (bd ! j) @ [r])]"
    using i j Suc.prems(3) by (simp add: s3_def m bd1)
  have l3: "length (bucketData s3) = length bd" by (simp add: bd3)
  have i3: "snd (bucketData s3 ! i) = butlast xs"
    using i j Suc.prems(3) by (simp add: bd3)
  have z3: "bucketSize s3 = bucketSize s" by (simp add: s3_def m bd1)
  have "total_members (bd[i := (fst (bd ! i), butlast xs)]) + length (snd (bd ! i)) =
      total_members bd + length (butlast xs)"
    using i by (rule total_members_update)
  moreover have "total_members (bd[i := (fst (bd ! i), butlast xs), j := (fst (bd ! j), snd (bd ! j) @ [r])]) +
      length (snd (bd[i := (fst (bd ! i), butlast xs)] ! j)) =
      total_members (bd[i := (fst (bd ! i), butlast xs)]) + length (snd (bd ! j) @ [r])"
    using j by (intro total_members_update) simp
  moreover have "snd (bd[i := (fst (bd ! i), butlast xs)] ! j) = snd (bd ! j)"
    using Suc.prems(3) by simp
  moreover have "Suc n \<le> length xs" using Suc.prems(4) by (simp add: xs_def bd_def)
  ultimately have t3: "total_members (bucketData s3) = total_members bd"
    by (simp add: bd3 xs_def)
  have "bucketSize s' = bucketSize s3 \<and> length (bucketData s') = length (bucketData s3) \<and>
       total_members (bucketData s') = total_members (bucketData s3)"
  proof (rule Suc.IH [OF _ _ _ _ rec])
    show "i < length (bucketData s3)" "j < length (bucketData s3)" using i j by (simp_all add: l3)
    show "i \<noteq> j" by (rule Suc.prems(3))
    show "n \<le> length (snd (bucketData s3 ! i))"
      using Suc.prems(4) by (simp add: i3 xs_def bd_def)
  qed
  then show ?case by (simp add: l3 t3 z3 bd_def)
qed

lemma rebalance_pair_keeps:
  assumes "0 \<le> k" and "i \<noteq> j"
    and "rebalance_pair getMembers dateToString k i j s = (Inr a, s')"
  shows "bucketSize s' = bucketSize s \<and> length (bucketData s') = length (bucketData s) \<and>
       total_members (bucketData s') = total_members (bucketData s)"
proof -
  let ?a = "min (int (length (snd (bucketData s ! i))) - k) (int (length (snd (bucketData s ! j))) - k)"
  from assms(3) have r: "i < length (bucketData s)" "j < length (bucketData s)"
    and t: "transfer getMembers dateToString (nat ?a) i j s = (None, s')"
    by (auto simp: rebalance_pair_def Let_def split: if_splits prod.splits option.splits)
  have "nat ?a \<le> length (snd (bucketData s ! i))" using assms(1) by simp
  from transfer_keeps [OF r assms(2) this t] show ?thesis .
qed

lemma aligned_known:
  assumes "aligned s" and "j < length (buckets s)"
  shows "ref (fst (bucketData s ! j)) \<in> set (map ref (buckets s))"
proof -
  from assms have "map ref (buckets s) ! j = ref (fst (bucketData s ! j))"
    by (simp add: aligned_def)
  moreover have "map ref (buckets s) ! j \<in> set (map ref (buckets s))"
    using assms(2) by (intro nth_mem) simp
  ultimately show ?thesis by simp
qed

lemma aligned_empty:
  assumes "aligned s" and "length (buckets s) \<le> i" and "i < length (bucketData s)"
  shows "snd (bucketData s ! i) = []"
proof -
  define n where "n = length (buckets s)"
  define rest where "rest = drop n (bucketData s)"
  from assms(1) have "list_all (\<lambda>entry. snd entry = []) rest"
    by (simp add: aligned_def rest_def n_def)
  then have all: "\<forall>m < length rest. snd (rest ! m) = []"
    by (simp only: list_all_length)
  have m: "i - n < length rest" using assms(2,3) by (simp add: rest_def n_def)
  have "rest ! (i - n) = bucketData s ! i"
    using assms(2,3) by (simp add: rest_def n_def)
  with all m show ?thesis by auto
qed

lemma append_known:
  "ref bucket \<in> set (map ref (buckets s)) \<Longrightarrow>
   buckets (snd (append dateToString resource bucket s)) = buckets s"
  by (simp add: append_def addToBucket_def split: sum.splits)

lemma move_known:
  "ref t \<in> set (map ref (buckets s)) \<Longrightarrow>
   buckets (snd (move getMembers dateToString resource f t s)) = buckets s"
  by (simp add: move_def removeFromBucket_def append_known)

lemma aligned_update:
  assumes "aligned s" and "buckets s' = buckets s"
    and "length (bucketData s') = length (bucketData s)"
    and "map fst (bucketData s') = map fst (bucketData s)"
    and "\<And>k. length (buckets s) \<le> k \<Longrightarrow> k < length (bucketData s) \<Longrightarrow> snd (bucketData s' ! k) = []"
  shows "aligned s'"
proof -
  have "map (\<lambda>entry. ref (fst entry)) (take (length (buckets s)) (bucketData s')) =
      map ref (take (length (buckets s)) (map fst (bucketData s')))"
    by (simp add: take_map)
  also have "\<dots> = map (\<lambda>entry. ref (fst entry)) (take (length (buckets s)) (bucketData s))"
    by (simp add: assms(4) take_map)
  finally have 1: "map ref (buckets s') =
      map (\<lambda>entry. ref (fst entry)) (take (length (buckets s')) (bucketData s'))"
    using assms(1,2) by (simp add: aligned_def)
  have 2: "list_all (\<lambda>entry. snd entry = []) (drop (length (buckets s')) (bucketData s'))"
    using assms(2,3,5) by (simp add: list_all_length)
  from 1 2 assms(1,2,3) show ?thesis by (simp add: aligned_def)
qed



lemma map_fst_update:
  "map fst (bd[i := (fst (bd ! i), ms)]) = map fst bd"
proof (cases "i < length bd")
  case True
  then have "(map fst bd)[i := fst (bd ! i)] = map fst bd"
    by (metis list_update_id nth_map)
  then show ?thesis by (simp add: map_update)
next
  case False
  then have "bd[i := (fst (bd ! i), ms)] = bd" by (intro list_update_beyond) simp
  then show ?thesis by (simp only:)
qed

lemma aligned_pop:
  assumes "aligned s" and "bucketData s1 = (bucketData s)[i := (fst (bucketData s ! i), butlast (snd (bucketData s ! i)))]"
    and "buckets s1 = buckets s"
  shows "aligned s1"
proof (rule aligned_update [OF assms(1) assms(3)])
  show "length (bucketData s1) = length (bucketData s)" by (simp add: assms(2))
  show "map fst (bucketData s1) = map fst (bucketData s)" by (simp add: assms(2) map_fst_update)
  fix k assume k: "length (buckets s) \<le> k" "k < length (bucketData s)"
  from aligned_empty [OF assms(1) k] show "snd (bucketData s1 ! k) = []"
    using k by (cases "k = i") (simp_all add: assms(2))
qed

lemma aligned_push:
  assumes "aligned s" and "j < length (buckets s)"
    and "bucketData s3 = (bucketData s)[j := (fst (bucketData s ! j), ms)]"
    and "buckets s3 = buckets s"
  shows "aligned s3"
proof (rule aligned_update [OF assms(1) assms(4)])
  show "length (bucketData s3) = length (bucketData s)" by (simp add: assms(3))
  show "map fst (bucketData s3) = map fst (bucketData s)" by (simp add: assms(3) map_fst_update)
  fix k assume k: "length (buckets s) \<le> k" "k < length (bucketData s)"
  from aligned_empty [OF assms(1) k] show "snd (bucketData s3 ! k) = []"
    using k assms(2) by (simp add: assms(3))
qed

lemma aligned_same:
  "aligned s \<Longrightarrow> bucketData s' = bucketData s \<Longrightarrow> buckets s' = buckets s \<Longrightarrow> aligned s'"
  by (simp add: aligned_def)

lemma transfer_aligned:
  "\<lbrakk>aligned s; j < length (buckets s); i \<noteq> j;
    transfer getMembers dateToString n i j s = (None, s')\<rbrakk>
   \<Longrightarrow> aligned s' \<and> buckets s' = buckets s"
proof (induction n arbitrary: s)
  case 0
  then show ?case by simp
next
  case (Suc n)
  define bd where "bd = bucketData s"
  define xs where "xs = snd (bd ! i)"
  define r where "r = (if xs = [] then None else last xs)"
  define s1 where "s1 = s\<lparr>bucketData := bd[i := (fst (bd ! i), butlast xs)]\<rparr>"
  define mv where "mv = move getMembers dateToString r (fst (bd ! i)) (fst (bucketData s1 ! j)) s1"
  define s2 where "s2 = snd mv"
  define s3 where "s3 = s2\<lparr>bucketData := (bucketData s2)
      [j := (fst (bucketData s2 ! j), snd (bucketData s2 ! j) @ [r])]\<rparr>"
  have unfold: "transfer getMembers dateToString (Suc n) i j s =
      (case mv of (Some e, s2) \<Rightarrow> (Some e, s2)
       | (None, s2) \<Rightarrow> transfer getMembers dateToString n i j
           (s2\<lparr>bucketData := (bucketData s2)
              [j := (fst (bucketData s2 ! j), snd (bucketData s2 ! j) @ [r])]\<rparr>))"
    unfolding mv_def s1_def r_def xs_def bd_def transfer.simps Let_def ..
  from Suc.prems(4) have rec: "transfer getMembers dateToString n i j s3 = (None, s')"
    unfolding unfold s3_def s2_def by (cases mv) (auto split: option.splits)
  have a1: "aligned s1" and b1: "buckets s1 = buckets s"
    using aligned_pop [OF Suc.prems(1), of s1 i] by (simp_all add: s1_def bd_def xs_def)
  have known: "ref (fst (bucketData s1 ! j)) \<in> set (map ref (buckets s1))"
    using a1 Suc.prems(2) b1 by (intro aligned_known) simp_all
  have b2: "buckets s2 = buckets s1"
    unfolding s2_def mv_def using known by (rule move_known)
  have d2: "bucketData s2 = bucketData s1"
    unfolding s2_def mv_def using move_keeps by blast
  have a2: "aligned s2" using a1 d2 b2 by (rule aligned_same)
  have a3: "aligned s3" and b3: "buckets s3 = buckets s"
    using aligned_push [OF a2, of j s3] Suc.prems(2) by (simp_all add: s3_def b2 b1)
  from Suc.IH [OF a3 _ Suc.prems(3) rec] Suc.prems(2) show ?case by (simp add: b3)
qed

lemma rebalance_pair_aligned:
  assumes "aligned s" and "j < length (buckets s)" and "i \<noteq> j"
    and "rebalance_pair getMembers dateToString k i j s = (Inr a, s')"
  shows "aligned s' \<and> buckets s' = buckets s"
proof -
  from assms(4) obtain n where "transfer getMembers dateToString n i j s = (None, s')"
    by (auto simp: rebalance_pair_def Let_def split: if_splits prod.splits option.splits)
  from transfer_aligned [OF assms(1-3) this] show ?thesis .
qed

lemma new_buckets_returns:
  assumes "0 \<le> k" and "i < length (bucketData s)"
    and "new_buckets getMembers dateToString clock k i remaining s = Some y"
  shows "y = (None, s)"
proof (cases "0 < remaining")
  case True
  from new_buckets_never_ends [OF assms(1) True assms(2)] assms(3) show ?thesis by simp
next
  case False
  with assms(3) show ?thesis by (subst (asm) new_buckets.simps) simp
qed


lemma kept_refl: "aligned s \<Longrightarrow> kept s s"
  by (simp add: kept_def)

lemma kept_trans: "kept s s1 \<Longrightarrow> kept s1 s2 \<Longrightarrow> kept s s2"
  by (simp add: kept_def)

lemma rebalance_pair_kept:
  assumes "0 \<le> k" and "aligned s" and "j < length (buckets s)" and "i \<noteq> j"
    and "rebalance_pair getMembers dateToString k i j s = (Inr a, s')"
  shows "kept s s'"
  using rebalance_pair_aligned [OF assms(2-5)] rebalance_pair_keeps [OF assms(1,4,5)]
  by (simp add: kept_def)

lemma rebalance_entry_kept:
  assumes n: "nonnegative_size s" and a: "aligned s" and i: "i < length (bucketData s)"
    and r: "rebalance_entry getMembers dateToString clock i s = Some (None, s')"
  shows "kept s s'"
proof (cases "bucketSize s")
  case None
  with r a show ?thesis by (simp add: rebalance_entry_def kept_refl)
next
  case (Some k)
  with n have k: "0 \<le> k" by (simp add: nonnegative_size_def)
  define remaining where "remaining = int (length (snd (bucketData s ! i))) - k"
  show ?thesis
  proof (cases "0 < remaining")
    case False
    with r a Some show ?thesis by (simp add: rebalance_entry_def remaining_def kept_refl)
  next
    case True
    have ib: "i < length (buckets s)"
    proof (rule ccontr)
      assume "\<not> i < length (buckets s)"
      then have "snd (bucketData s ! i) = []" using a i by (intro aligned_empty) simp_all
      with True k show False by (simp add: remaining_def)
    qed
    define r1 where "r1 = (if i > 0 then rebalance_pair getMembers dateToString k i (i - 1) s
        else (Inr 0, s))"
    have "rebalance_entry getMembers dateToString clock i s =
        (if remaining > 0 then
           (case r1 of (Inl e, s1) \<Rightarrow> Some (Some e, s1)
            | (Inr moved_back, s1) \<Rightarrow>
               (case (if int i < int (length (buckets s1)) - 1
                      then rebalance_pair getMembers dateToString k i (i + 1) s1 else (Inr 0, s1)) of
                  (Inl e, s2) \<Rightarrow> Some (Some e, s2)
                | (Inr moved_on, s2) \<Rightarrow>
                    new_buckets getMembers dateToString clock k i (remaining - moved_back - moved_on) s2))
         else Some (None, s))"
      unfolding rebalance_entry_def Some option.case Let_def remaining_def r1_def ..
    with r True have e1: "(case r1 of (Inl e, s1) \<Rightarrow> Some (Some e, s1)
         | (Inr moved_back, s1) \<Rightarrow>
            (case (if int i < int (length (buckets s1)) - 1
                   then rebalance_pair getMembers dateToString k i (i + 1) s1 else (Inr 0, s1)) of
               (Inl e, s2) \<Rightarrow> Some (Some e, s2)
             | (Inr moved_on, s2) \<Rightarrow>
                 new_buckets getMembers dateToString clock k i (remaining - moved_back - moved_on) s2)) =
        Some (None, s')"
      by (simp only: if_True)
    obtain x1 s1 where x1: "r1 = (x1, s1)" by (cases r1)
    from e1 x1 obtain a1 where r1: "r1 = (Inr a1, s1)" by (cases x1) auto
    define r2 where "r2 = (if int i < int (length (buckets s1)) - 1
        then rebalance_pair getMembers dateToString k i (i + 1) s1 else (Inr 0, s1))"
    from e1 have e2: "(case r2 of (Inl e, s2) \<Rightarrow> Some (Some e, s2)
             | (Inr moved_on, s2) \<Rightarrow>
                 new_buckets getMembers dateToString clock k i (remaining - a1 - moved_on) s2) =
        Some (None, s')"
      unfolding r1 r2_def prod.case sum.case .
    obtain x2 s2 where x2: "r2 = (x2, s2)" by (cases r2)
    from e2 x2 obtain a2 where r2: "r2 = (Inr a2, s2)" by (cases x2) auto
    from e2 r2 have nb:
      "new_buckets getMembers dateToString clock k i (remaining - a1 - a2) s2 = Some (None, s')"
      by simp
    have k1: "kept s s1"
    proof (cases "i > 0")
      case True
      with r1 have "rebalance_pair getMembers dateToString k i (i - 1) s = (Inr a1, s1)"
        by (simp add: r1_def)
      then show ?thesis using k a ib True by (intro rebalance_pair_kept [of k s "i - 1" i]) simp_all
    next
      case False
      with r1 a show ?thesis by (simp add: r1_def kept_refl)
    qed
    have k2: "kept s1 s2"
    proof (cases "int i < int (length (buckets s1)) - 1")
      case True
      with r2 have "rebalance_pair getMembers dateToString k i (i + 1) s1 = (Inr a2, s2)"
        by (simp add: r2_def)
      then show ?thesis using k k1 True
        by (intro rebalance_pair_kept [of k s1 "i + 1" i]) (simp_all add: kept_def)
    next
      case False
      with r2 k1 show ?thesis by (simp add: r2_def kept_refl kept_def)
    qed
    have "i < length (bucketData s2)" using k1 k2 i by (simp add: kept_def)
    from new_buckets_returns [OF k this nb] have "s' = s2" by simp
    with k1 k2 show ?thesis by (simp add: kept_trans)
  qed
qed


lemma kept_nonnegative: "kept s s' \<Longrightarrow> nonnegative_size s \<Longrightarrow> nonnegative_size s'"
  by (simp add: kept_def nonnegative_size_def)

lemma rebalance_loop_kept:
  assumes r: "rebalance_loop getMembers dateToString clock i s = Some (None, s')"
    and n: "nonnegative_size s" and a: "aligned s"
  shows "buckets s' = buckets s \<and> bucketSize s' = bucketSize s \<and>
         total_members (bucketData s') = total_members (bucketData s)"
proof -
  have "nonnegative_size s \<and> aligned s \<and> fst (None :: error option, s') = None \<longrightarrow>
      buckets (snd (None :: error option, s')) = buckets s \<and>
      bucketSize (snd (None :: error option, s')) = bucketSize s \<and>
      total_members (bucketData (snd (None :: error option, s'))) = total_members (bucketData s)"
  proof (rule rebalance_loop.raw_induct
      [where P = "\<lambda>getMembers dateToString clock i s y.
          nonnegative_size s \<and> aligned s \<and> fst y = None \<longrightarrow>
          buckets (snd y) = buckets s \<and> bucketSize (snd y) = bucketSize s \<and>
          total_members (bucketData (snd y)) = total_members (bucketData s)", OF _ r])
    fix f getMembers dateToString clock i s y
    assume IH: "\<And>getMembers dateToString clock i s y.
        f getMembers dateToString clock i s = Some y \<Longrightarrow>
        nonnegative_size s \<and> aligned s \<and> fst y = None \<longrightarrow>
          buckets (snd y) = buckets s \<and> bucketSize (snd y) = bucketSize s \<and>
          total_members (bucketData (snd y)) = total_members (bucketData s)"
      and body: "(if i < length (bucketData s) then
        Option.bind (rebalance_entry getMembers dateToString clock i s)
          (\<lambda>r. case r of
                  (Some e, s1) \<Rightarrow> Some (Some e, s1)
                | (None, s1) \<Rightarrow> f getMembers dateToString clock (Suc i) s1)
      else Some (None, s)) = Some y"
    show "nonnegative_size s \<and> aligned s \<and> fst y = None \<longrightarrow>
          buckets (snd y) = buckets s \<and> bucketSize (snd y) = bucketSize s \<and>
          total_members (bucketData (snd y)) = total_members (bucketData s)"
    proof (intro impI)
      assume pre: "nonnegative_size s \<and> aligned s \<and> fst y = None"
      show "buckets (snd y) = buckets s \<and> bucketSize (snd y) = bucketSize s \<and>
          total_members (bucketData (snd y)) = total_members (bucketData s)"
      proof (cases "i < length (bucketData s)")
        case False
        with body show ?thesis by auto
      next
        case True
        with body obtain x s1 where e: "rebalance_entry getMembers dateToString clock i s = Some (x, s1)"
          and c: "(case (x, s1) of
                  (Some e, s1) \<Rightarrow> Some (Some e, s1)
                | (None, s1) \<Rightarrow> f getMembers dateToString clock (Suc i) s1) = Some y"
          by (auto simp: bind_eq_Some_conv)
        from c pre have x: "x = None" by (cases x) auto
        with c have rec: "f getMembers dateToString clock (Suc i) s1 = Some y" by simp
        from e x pre True have k: "kept s s1"
          by (intro rebalance_entry_kept [of s i getMembers dateToString clock]) simp_all
        then have "nonnegative_size s1 \<and> aligned s1 \<and> fst y = None"
          using pre kept_nonnegative by (simp add: kept_def)
        with IH [OF rec] k show ?thesis by (simp add: kept_def)
      qed
    qed
  qed
  with n a show ?thesis by simp
qed

lemma aligned_fetched:
  "aligned (s\<lparr>bucketData := map (\<lambda>bucket. (bucket, map Some (getMembers bucket))) (buckets s)\<rparr>)"
  by (simp add: aligned_def comp_def)

lemma total_members_fetched:
  "total_members (map (\<lambda>bucket. (bucket, map Some (getMembers bucket))) bs) =
     sum_list (map (\<lambda>bucket. length (getMembers bucket)) bs)"
  by (simp add: total_members_def comp_def)

lemma rebalance_kept:
  assumes "rebalance getMembers dateToString clock s = Some (None, s')" and "nonnegative_size s"
  shows "buckets s' = buckets s \<and> bucketSize s' = bucketSize s \<and>
         total_members (bucketData s') = stored_members getMembers s"
proof -
  let ?s0 = "s\<lparr>bucketData := map (\<lambda>bucket. (bucket, map Some (getMembers bucket))) (buckets s)\<rparr>"
  from assms(1) have r: "rebalance_loop getMembers dateToString clock 0 ?s0 = Some (None, s')"
    by (simp add: rebalance_def)
  have n: "nonnegative_size ?s0" using assms(2) by (simp add: nonnegative_size_def)
  from rebalance_loop_kept [OF r n aligned_fetched] show ?thesis
    by (simp add: total_members_fetched stored_members_def)
qed

lemma rebalance_calls_kept:
  "rebalance_calls getMembers dateToString clock n s = Some (None, s') \<Longrightarrow> nonnegative_size s \<Longrightarrow>
   buckets s' = buckets s \<and> bucketSize s' = bucketSize s \<and>
   (0 < n \<longrightarrow> total_members (bucketData s') = stored_members getMembers s)"
proof (induction n arbitrary: s)
  case 0
  then show ?case by simp
next
  case (Suc n)
  from Suc.prems(1) obtain s1 where
    r: "rebalance getMembers dateToString clock s = Some (None, s1)" and
    c: "rebalance_calls getMembers dateToString clock n s1 = Some (None, s')"
    by (auto split: option.splits prod.splits)
  from rebalance_kept [OF r Suc.prems(2)] have k: "buckets s1 = buckets s" "bucketSize s1 = bucketSize s"
    "total_members (bucketData s1) = stored_members getMembers s" by simp_all
  then have n1: "nonnegative_size s1" using Suc.prems(2) by (simp add: nonnegative_size_def)
  have st: "stored_members getMembers s1 = stored_members getMembers s"
    by (simp add: stored_members_def k)
  show ?case
  proof (cases n)
    case 0
    with c k show ?thesis by simp
  next
    case (Suc m)
    with Suc.IH [OF c n1] k st show ?thesis by simp
  qed
qed


lemma rebalance_loop_roomy:
  "rebalance_loop scenario_members dateToString clock 0 roomy_fetched = Some (None, roomy_fetched)"
proof -
  have len: "length (bucketData roomy_fetched) = 3"
    by (simp add: roomy_fetched_def fetched_def scenario_def)
  have e: "rebalance_entry scenario_members dateToString clock 0 roomy_fetched = Some (None, roomy_fetched)"
    "rebalance_entry scenario_members dateToString clock (Suc 0) roomy_fetched = Some (None, roomy_fetched)"
    "rebalance_entry scenario_members dateToString clock (Suc (Suc 0)) roomy_fetched = Some (None, roomy_fetched)"
    by (simp_all add: rebalance_entry_def roomy_fetched_def fetched_def scenario_def)
  have l3: "rebalance_loop scenario_members dateToString clock (Suc (Suc (Suc 0))) roomy_fetched =
      Some (None, roomy_fetched)"
    by (subst rebalance_loop.simps) (simp add: len)
  have l2: "rebalance_loop scenario_members dateToString clock (Suc (Suc 0)) roomy_fetched =
      Some (None, roomy_fetched)"
    by (subst rebalance_loop.simps) (simp add: len e l3)
  have l1: "rebalance_loop scenario_members dateToString clock (Suc 0) roomy_fetched =
      Some (None, roomy_fetched)"
    by (subst rebalance_loop.simps) (simp add: len e l2)
  show ?thesis
    by (subst rebalance_loop.simps) (simp add: len e l1)
qed

lemma rebalance_roomy:
  "rebalance scenario_members dateToString clock roomy = Some (None, roomy_fetched)"
  "rebalance scenario_members dateToString clock roomy_fetched = Some (None, roomy_fetched)"
proof -
  have "roomy\<lparr>bucketData :=
      map (\<lambda>bucket. (bucket, map Some (scenario_members bucket))) (buckets roomy)\<rparr> = roomy_fetched"
    by (simp add: roomy_def roomy_fetched_def scenario_def fetched_def scenario_members_def)
  then show "rebalance scenario_members dateToString clock roomy = Some (None, roomy_fetched)"
    by (simp add: rebalance_def rebalance_loop_roomy)
  have "roomy_fetched\<lparr>bucketData :=
      map (\<lambda>bucket. (bucket, map Some (scenario_members bucket))) (buckets roomy_fetched)\<rparr> = roomy_fetched"
    by (simp add: roomy_fetched_def scenario_def fetched_def scenario_members_def)
  then show "rebalance scenario_members dateToString clock roomy_fetched = Some (None, roomy_fetched)"
    by (simp add: rebalance_def rebalance_loop_roomy)
qed

text \<open>
  Claim C2. For a bucket size that is not negative (or \<open>Infinity\<close>), whatever the buckets
  and their members: after every sequence of calls of \<open>rebalance\<close> that return, the
  members over all entries of \<open>bucketData\<close> are as many as the storage held before, and
  the buckets of the publisher hold as many as before; and every transfer between two
  entries that returns an amount leaves the total over all entries as it was. No
  resource is lost and none is duplicated.
\<close>

theorem rebalance_preserves_total:
  assumes "nonnegative_size s"
  shows "(rebalance_calls getMembers dateToString clock (Suc n) s = Some (None, s') \<longrightarrow>
            total_members (bucketData s') = stored_members getMembers s \<and>
            stored_members getMembers s' = stored_members getMembers s) \<and>
         (bucketSize s = Some k \<and> i \<noteq> j \<and>
          rebalance_pair getMembers dateToString k i j s = (Inr a, s'') \<longrightarrow>
            total_members (bucketData s'') = total_members (bucketData s))"
proof (intro conjI impI)
  assume c: "rebalance_calls getMembers dateToString clock (Suc n) s = Some (None, s')"
  from rebalance_calls_kept [OF c assms]
  show "total_members (bucketData s') = stored_members getMembers s"
    and "stored_members getMembers s' = stored_members getMembers s"
    by (simp_all add: stored_members_def)
next
  assume p: "bucketSize s = Some k \<and> i \<noteq> j \<and>
      rebalance_pair getMembers dateToString k i j s = (Inr a, s'')"
  with assms have "0 \<le> k" by (simp add: nonnegative_size_def)
  from rebalance_pair_keeps [OF this, of i j getMembers dateToString s a s''] p
  show "total_members (bucketData s'') = total_members (bucketData s)" by simp
qed

theorem rebalance_preserves_total_witness:
  "nonnegative_size roomy \<and>
   rebalance_calls scenario_members (\<lambda>d. []) (\<lambda>n. 0) 2 roomy = Some (None, roomy_fetched) \<and>
   total_members (bucketData roomy_fetched) = 5 \<and>
   stored_members scenario_members roomy = 5 \<and>
   stored_members scenario_members roomy_fetched = 5 \<and>
   nonnegative_size crowded \<and>
   fst (rebalance_pair crowded_members (\<lambda>d. []) 2 1 0 crowded) = Inr 1 \<and>
   total_members (bucketData (snd (rebalance_pair crowded_members (\<lambda>d. []) 2 1 0 crowded))) = 7 \<and>
   total_members (bucketData crowded) = 7"
proof -
  have n1: "nonnegative_size roomy" by (simp add: nonnegative_size_def roomy_def)
  have n2: "nonnegative_size crowded" by (simp add: nonnegative_size_def crowded_def)
  have c: "rebalance_calls scenario_members (\<lambda>d. []) (\<lambda>n. 0) (Suc (Suc 0)) roomy =
      Some (None, roomy_fetched)"
    by (simp add: rebalance_roomy)
  have st: "stored_members scenario_members roomy = 5"
    by (simp add: stored_members_def roomy_def scenario_def scenario_members_def)
  have p: "fst (rebalance_pair crowded_members (\<lambda>d. []) 2 1 0 crowded) = Inr 1"
    by (simp add: rebalance_pair_def crowded_def crowded_members_def move_def
        removeFromBucket_def append_def resourceToOptimisedTurtle_def addElements_def
        write_all_def addToBucket_def Let_def)
  then have p': "rebalance_pair crowded_members (\<lambda>d. []) 2 1 0 crowded =
      (Inr 1, snd (rebalance_pair crowded_members (\<lambda>d. []) 2 1 0 crowded))"
    by (metis prod.collapse)
  have t: "total_members (bucketData crowded) = 7"
    by (simp add: total_members_def crowded_def)
  have z: "bucketSize crowded = Some 2" by (simp add: crowded_def)
  from rebalance_preserves_total [OF n1, where getMembers = scenario_members
        and dateToString = "\<lambda>d. []" and clock = "\<lambda>n. 0" and n = "Suc 0" and s' = roomy_fetched]
    rebalance_preserves_total [OF n2, where k = 2 and i = 1 and j = 0
        and getMembers = crowded_members and dateToString = "\<lambda>d. []" and a = 1
        and s'' = "snd (rebalance_pair crowded_members (\<lambda>d. []) 2 1 0 crowded)"]
    c st p p' t z n1 n2
  show ?thesis by (simp add: numeral_2_eq_2)
qed

end
